theory Spec2Isabelle
  imports Complex_Main "HOL-Library.AList"
begin

section \<open>Values\<close>

text \<open>
  The script \<^verbatim>\<open>make_doe_json.py\<close> turns the rows of a worksheet into a nested
  document. A cell of a row is a Python scalar. Every place of the script that reads a
  cell tests it with \<^verbatim>\<open>pd.isna\<close> first, and \<^verbatim>\<open>row.get\<close> gives \<^verbatim>\<open>None\<close> for a
  column that is absent, so one value \<open>SNone\<close> stands for \<^verbatim>\<open>None\<close>, NaN and an absent
  column alike.

  A float is its exact value: a finite double is a rational number, and the script does
  no floating point arithmetic on it (it asks \<^verbatim>\<open>is_integer\<close> and converts with
  \<^verbatim>\<open>int\<close>, both exact). Text is a list of code points below 256.
\<close>

datatype pyfloat = Finite rat | NegZero | PosInf | NegInf

datatype scalar = SNone | SBool bool | SInt int | SFloat pyfloat | SStr string

text \<open>
  The values the script builds: scalars, lists and dictionaries. A dictionary keeps its
  keys in insertion order, and \<^verbatim>\<open>d[k] = v\<close> is \<^const>\<open>AList.update\<close>: it replaces
  the value of a key that is there and appends a new key at the end.
\<close>

datatype pyval = Atom scalar | PList "pyval list" | PDict "(string \<times> pyval) list"

type_synonym pydict = "(string \<times> pyval) list"

datatype py_error = ZeroDivisionError | IndexError | OverflowError | ValueError | AttributeError

type_synonym row = "string \<rightharpoonup> scalar"

definition row_get :: "row \<Rightarrow> string \<Rightarrow> scalar" where
  \<comment> \<open>\<^verbatim>\<open>row.get(key)\<close>: the default is \<^verbatim>\<open>None\<close>.\<close>
  "row_get r k = (case r k of None \<Rightarrow> SNone | Some v \<Rightarrow> v)"

definition is_na :: "scalar \<Rightarrow> bool" where
  \<comment> \<open>\<^verbatim>\<open>pd.isna\<close> on a scalar.\<close>
  "is_na v = (v = SNone)"

definition dict_get :: "pyval \<Rightarrow> string \<Rightarrow> pyval option" where
  \<comment> \<open>Looking a key up in a value that is a dictionary.\<close>
  "dict_get v k = (case v of PDict d \<Rightarrow> map_of d k | _ \<Rightarrow> None)"

definition has_key :: "pyval \<Rightarrow> string \<Rightarrow> bool" where
  "has_key v k = (dict_get v k \<noteq> None)"

section \<open>Python's built-in conversions\<close>

definition is_space :: "char \<Rightarrow> bool" where
  \<comment> \<open>\<^verbatim>\<open>str.isspace\<close> on the code points below 256.\<close>
  "is_space c = ((of_char c :: nat) \<in> {9, 10, 11, 12, 13, 28, 29, 30, 31, 32, 133, 160})"

definition strip :: "string \<Rightarrow> string" where
  \<comment> \<open>\<^verbatim>\<open>s.strip()\<close>\<close>
  "strip s = rev (dropWhile is_space (rev (dropWhile is_space s)))"

definition lower_char :: "char \<Rightarrow> char" where
  "lower_char c =
     (let n = (of_char c :: nat)
      in if (65 \<le> n \<and> n \<le> 90) \<or> (192 \<le> n \<and> n \<le> 222 \<and> n \<noteq> 215)
         then char_of (n + 32) else c)"

definition lower :: "string \<Rightarrow> string" where
  \<comment> \<open>\<^verbatim>\<open>s.lower()\<close>\<close>
  "lower s = map lower_char s"

definition digit_char :: "nat \<Rightarrow> char" where
  "digit_char d = char_of (48 + d)"

function str_nat :: "nat \<Rightarrow> string" where
  "str_nat n = (if n < 10 then [digit_char n] else str_nat (n div 10) @ [digit_char (n mod 10)])"
  by pat_completeness auto
termination
  by (relation "measure id") auto

declare str_nat.simps [simp del]

definition str_int :: "int \<Rightarrow> string" where
  \<comment> \<open>\<^verbatim>\<open>str(n)\<close> of an integer: decimal, with a minus sign.\<close>
  "str_int n = (if n < 0 then CHR ''-'' # str_nat (nat (- n)) else str_nat (nat n))"

definition INT_MAX_STR_DIGITS :: nat where
  \<comment> \<open>The limit CPython (from version 3.11) puts by default on the decimal digits of an
      integer in a conversion between \<^verbatim>\<open>int\<close> and \<^verbatim>\<open>str\<close>.\<close>
  "INT_MAX_STR_DIGITS = 4300"

definition exceeds_max_str_digits :: "int \<Rightarrow> bool" where
  \<comment> \<open>The integer has more decimal digits than the limit; the sign does not count.\<close>
  "exceeds_max_str_digits n = (\<bar>n\<bar> \<ge> 10 ^ INT_MAX_STR_DIGITS)"

definition py_str :: "(pyfloat \<Rightarrow> string) \<Rightarrow> scalar \<Rightarrow> py_error + string" where
  \<comment> \<open>\<^verbatim>\<open>str(val)\<close>. It raises ValueError on an integer with more digits than the limit.
      The text of a float (the shortest decimal that reads back as the same double) is not
      computed here: it is the parameter \<open>float_str\<close>. No call reaches \<open>SNone\<close>: each one
      comes after a \<^verbatim>\<open>pd.isna\<close> test.\<close>
  "py_str float_str v =
     (case v of
        SNone \<Rightarrow> Inr ''None''
      | SBool b \<Rightarrow> Inr (if b then ''True'' else ''False'')
      | SInt n \<Rightarrow> if exceeds_max_str_digits n then Inl ValueError else Inr (str_int n)
      | SFloat f \<Rightarrow> Inr (float_str f)
      | SStr s \<Rightarrow> Inr s)"

definition truthy :: "scalar \<Rightarrow> bool" where
  \<comment> \<open>The truth value Python gives a scalar in \<^verbatim>\<open>if\<close>, \<^verbatim>\<open>or\<close> and \<^verbatim>\<open>any\<close>.\<close>
  "truthy v =
     (case v of
        SNone \<Rightarrow> False
      | SBool b \<Rightarrow> b
      | SInt n \<Rightarrow> n \<noteq> 0
      | SFloat f \<Rightarrow> (case f of Finite q \<Rightarrow> q \<noteq> 0 | NegZero \<Rightarrow> False | _ \<Rightarrow> True)
      | SStr s \<Rightarrow> s \<noteq> [])"

definition of_opt :: "string option \<Rightarrow> scalar" where
  \<comment> \<open>A \<^verbatim>\<open>str | None\<close> as a scalar.\<close>
  "of_opt x = (case x of None \<Rightarrow> SNone | Some s \<Rightarrow> SStr s)"

definition py_or :: "string option \<Rightarrow> string option \<Rightarrow> string option" where
  \<comment> \<open>\<^verbatim>\<open>a or b\<close> on \<^verbatim>\<open>str | None\<close>\<close>
  "py_or a b = (if truthy (of_opt a) then a else b)"

definition py_any :: "scalar list \<Rightarrow> bool" where
  "py_any vs = list_ex truthy vs"

definition float_overflows :: "int \<Rightarrow> bool" where
  \<comment> \<open>\<^verbatim>\<open>float(n)\<close> raises OverflowError when \<open>n\<close> rounds (to nearest, ties to even)
      beyond the largest double, \<open>2 ^ 1024 - 2 ^ 971\<close>.\<close>
  "float_overflows n = (\<bar>n\<bar> \<ge> 2 ^ 1024 - 2 ^ 970)"

definition is_integer :: "pyfloat \<Rightarrow> bool" where
  \<comment> \<open>\<^verbatim>\<open>f.is_integer()\<close>\<close>
  "is_integer f =
     (case f of Finite q \<Rightarrow> of_int \<lfloor>q\<rfloor> = q | NegZero \<Rightarrow> True | PosInf \<Rightarrow> False | NegInf \<Rightarrow> False)"

definition int_of_float :: "pyfloat \<Rightarrow> py_error + int" where
  \<comment> \<open>\<^verbatim>\<open>int(f)\<close>: truncation towards zero.\<close>
  "int_of_float f =
     (case f of
        Finite q \<Rightarrow> Inr (if q \<ge> 0 then \<lfloor>q\<rfloor> else \<lceil>q\<rceil>)
      | NegZero \<Rightarrow> Inr 0
      | PosInf \<Rightarrow> Inl OverflowError
      | NegInf \<Rightarrow> Inl OverflowError)"

definition is_digit :: "char \<Rightarrow> bool" where
  "is_digit c = (48 \<le> (of_char c :: nat) \<and> (of_char c :: nat) \<le> 57)"

fun parse_digits :: "string \<Rightarrow> int \<Rightarrow> int option" where
  "parse_digits [] acc = Some acc"
| "parse_digits (c # cs) acc =
     (if is_digit c then parse_digits cs (acc * 10 + (int (of_char c) - 48))
      else if c = CHR ''_'' then
        (case cs of [] \<Rightarrow> None | d # _ \<Rightarrow> if is_digit d then parse_digits cs acc else None)
      else None)"

definition is_int_space :: "char \<Rightarrow> bool" where
  \<comment> \<open>The whitespace \<^verbatim>\<open>int\<close> skips around a number: that of \<^verbatim>\<open>str.isspace\<close> without
      the separators 28 to 31.\<close>
  "is_int_space c = ((of_char c :: nat) \<in> {9, 10, 11, 12, 13, 32, 133, 160})"

definition int_of_string :: "string \<Rightarrow> py_error + int" where
  \<comment> \<open>\<^verbatim>\<open>int(s)\<close> in base 10: surrounding whitespace, one optional sign, digits with
      single underscores between them, and no more digits (leading zeros count) than the
      limit.\<close>
  "int_of_string s =
     (let t = rev (dropWhile is_int_space (rev (dropWhile is_int_space s)));
          neg = (case t of [] \<Rightarrow> False | c # _ \<Rightarrow> c = CHR ''-'');
          body = (case t of [] \<Rightarrow> [] | c # r \<Rightarrow> if c = CHR ''-'' \<or> c = CHR ''+'' then r else t)
      in case body of
           [] \<Rightarrow> Inl ValueError
         | c # _ \<Rightarrow>
             if is_digit c then
               (case parse_digits body 0 of
                  None \<Rightarrow> Inl ValueError
                | Some n \<Rightarrow>
                    if length (filter is_digit body) > INT_MAX_STR_DIGITS then Inl ValueError
                    else Inr (if neg then - n else n))
             else Inl ValueError)"

definition py_int :: "scalar \<Rightarrow> py_error + int" where
  \<comment> \<open>\<^verbatim>\<open>int(val)\<close>. No call reaches \<open>SNone\<close>.\<close>
  "py_int v =
     (case v of
        SNone \<Rightarrow> Inl ValueError
      | SBool b \<Rightarrow> Inr (if b then 1 else 0)
      | SInt n \<Rightarrow> Inr n
      | SFloat f \<Rightarrow> int_of_float f
      | SStr s \<Rightarrow> int_of_string s)"

section \<open>Configuration\<close>

definition NUM_BASES :: int where
  "NUM_BASES = 2"

definition AIRCRAFT_FILE :: string where
  "AIRCRAFT_FILE = ''SUT_series_hybrid.json''"

section \<open>The base distributor\<close>

fun incr_each :: "nat list \<Rightarrow> int list \<Rightarrow> py_error + int list" where
  \<comment> \<open>\<^verbatim>\<open>for i in ...: counts[i] += 1\<close>\<close>
  "incr_each [] counts = Inr counts"
| "incr_each (i # is) counts =
     (if i < length counts then incr_each is (counts[i := counts ! i + 1])
      else Inl IndexError)"

definition distribute_across_bases :: "int \<Rightarrow> int \<Rightarrow> py_error + int list" where
  \<comment> \<open>\<open>tot\<close> is the source's \<^verbatim>\<open>total\<close>.\<close>
  "distribute_across_bases tot num_bases =
     (if tot \<ge> num_bases then
        if num_bases = 0 then Inl ZeroDivisionError
        else
          let base = tot div num_bases;
              remainder = tot mod num_bases;
              counts = replicate (nat num_bases) base
          in incr_each [0 ..< nat remainder] counts
      else Inr (replicate (nat tot) 1 @ replicate (nat (num_bases - tot)) 0))"

section \<open>The cell normalizer\<close>

definition safe_str :: "(pyfloat \<Rightarrow> string) \<Rightarrow> scalar \<Rightarrow> py_error + string option" where
  \<comment> \<open>The only exception is the one \<^verbatim>\<open>str(val)\<close> raises.\<close>
  "safe_str float_str val =
     (if is_na val then Inr None
      else
        (case py_str float_str val of
           Inl e \<Rightarrow> Inl e
         | Inr t \<Rightarrow> (let s = strip t in Inr (if s \<noteq> [] then Some s else None))))"

section \<open>The suppression tactic builder\<close>

definition set_if_present ::
  "(pyfloat \<Rightarrow> string) \<Rightarrow> string \<Rightarrow> scalar \<Rightarrow> pydict \<Rightarrow> py_error + pydict" where
  \<comment> \<open>\<^verbatim>\<open>if safe_str(cell): d[k] = safe_str(cell)\<close>: two calls.\<close>
  "set_if_present float_str k cell d =
     (case safe_str float_str cell of
        Inl e \<Rightarrow> Inl e
      | Inr x \<Rightarrow>
          if truthy (of_opt x) then
            (case safe_str float_str cell of
               Inl e \<Rightarrow> Inl e
             | Inr y \<Rightarrow> Inr (AList.update k (Atom (of_opt y)) d))
          else Inr d)"

definition bs_main :: "(pyfloat \<Rightarrow> string) \<Rightarrow> string \<Rightarrow> row \<Rightarrow> py_error + pydict" where
  \<comment> \<open>The dictionary \<^verbatim>\<open>main\<close> of \<^verbatim>\<open>build_suppression\<close>.\<close>
  "bs_main float_str main_prefix row =
     (case set_if_present float_str ''select_poi''
             (row_get row (main_prefix @ ''select_poi'')) [] of
        Inl e \<Rightarrow> Inl e
      | Inr main1 \<Rightarrow>
     (case set_if_present float_str ''track_poi''
             (row_get row (main_prefix @ ''track_poi'')) main1 of
        Inl e \<Rightarrow> Inl e
      | Inr main2 \<Rightarrow>
          set_if_present float_str ''suppress''
            (row_get row (main_prefix @ ''suppress'')) main2))"

definition present_or_none :: "scalar \<Rightarrow> scalar" where
  \<comment> \<open>\<^verbatim>\<open>None if pd.isna(x) else x\<close>\<close>
  "present_or_none x = (if is_na x then SNone else x)"

definition bs_alt_fields ::
  "(pyfloat \<Rightarrow> string) \<Rightarrow> string \<Rightarrow> row \<Rightarrow> py_error + scalar list" where
  "bs_alt_fields float_str alt_prefix row =
     (case safe_str float_str (row_get row (alt_prefix @ ''select_poi'')) of
        Inl e \<Rightarrow> Inl e
      | Inr f1 \<Rightarrow>
     (case safe_str float_str (row_get row (alt_prefix @ ''track_poi'')) of
        Inl e \<Rightarrow> Inl e
      | Inr f2 \<Rightarrow>
     (case safe_str float_str (row_get row (alt_prefix @ ''suppress'')) of
        Inl e \<Rightarrow> Inl e
      | Inr f3 \<Rightarrow>
     (case safe_str float_str (row_get row (alt_prefix @ ''change_condition'')) of
        Inl e \<Rightarrow> Inl e
      | Inr f4 \<Rightarrow>
          Inr [of_opt f1, of_opt f2, of_opt f3, of_opt f4,
               present_or_none (row_get row (alt_prefix @ ''threshold''))]))))"

definition bs_main_cond_thresh ::
  "(pyfloat \<Rightarrow> string) \<Rightarrow> string \<Rightarrow> row \<Rightarrow> py_error + bool" where
  "bs_main_cond_thresh float_str main_prefix row =
     (case safe_str float_str (row_get row (main_prefix @ ''change_condition'')) of
        Inl e \<Rightarrow> Inl e
      | Inr c \<Rightarrow>
          Inr (py_any [of_opt c, present_or_none (row_get row (main_prefix @ ''threshold''))]))"

definition bs_alt_present ::
  "(pyfloat \<Rightarrow> string) \<Rightarrow> string \<Rightarrow> string \<Rightarrow> row \<Rightarrow> py_error + bool" where
  "bs_alt_present float_str main_prefix alt_prefix row =
     (case bs_alt_fields float_str alt_prefix row of
        Inl e \<Rightarrow> Inl e
      | Inr alt_fields \<Rightarrow>
     (case bs_main_cond_thresh float_str main_prefix row of
        Inl e \<Rightarrow> Inl e
      | Inr main_cond_thresh \<Rightarrow> Inr (py_any alt_fields \<or> main_cond_thresh)))"

definition get_lower :: "pydict \<Rightarrow> string \<Rightarrow> py_error + string" where
  \<comment> \<open>\<^verbatim>\<open>d.get(k, "").lower()\<close>: only a string has the method.\<close>
  "get_lower d k =
     (case (case map_of d k of None \<Rightarrow> Atom (SStr []) | Some v \<Rightarrow> v) of
        Atom (SStr s) \<Rightarrow> Inr (lower s)
      | _ \<Rightarrow> Inl AttributeError)"

definition bs_alt_tactic ::
  "(pyfloat \<Rightarrow> string) \<Rightarrow> string \<Rightarrow> row \<Rightarrow> pydict \<Rightarrow> py_error + pydict" where
  \<comment> \<open>The dictionary \<^verbatim>\<open>alt_tactic\<close>, from the row and the dictionary \<^verbatim>\<open>main\<close>.\<close>
  "bs_alt_tactic float_str alt_prefix row main =
     (case
        (case safe_str float_str (row_get row (alt_prefix @ ''select_poi'')) of
           Inl e \<Rightarrow> Inl e
         | Inr x \<Rightarrow>
             if truthy (of_opt x) then
               (case safe_str float_str (row_get row (alt_prefix @ ''select_poi'')) of
                  Inl e \<Rightarrow> Inl e
                | Inr y \<Rightarrow> Inr (AList.update ''select_poi'' (Atom (of_opt y)) []))
             else
               (case get_lower main ''select_poi'' of
                  Inl e \<Rightarrow> Inl e
                | Inr main_sel \<Rightarrow>
                    if main_sel = ''vegetation''
                    then Inr (AList.update ''select_poi'' (Atom (SStr ''water'')) [])
                    else if main_sel = ''water''
                    then Inr (AList.update ''select_poi'' (Atom (SStr ''vegetation'')) [])
                    else Inr (AList.update ''select_poi'' (Atom (SStr ''vegetation'')) [])))
      of
        Inl e \<Rightarrow> Inl e
      | Inr alt_tactic1 \<Rightarrow>
     (case safe_str float_str (row_get row (alt_prefix @ ''track_poi'')) of
        Inl e \<Rightarrow> Inl e
      | Inr t \<Rightarrow>
     (case safe_str float_str (row_get row (alt_prefix @ ''suppress'')) of
        Inl e \<Rightarrow> Inl e
      | Inr u \<Rightarrow>
          Inr (AList.update ''suppress'' (Atom (of_opt (py_or u (Some ''direct''))))
                (AList.update ''track_poi''
                   (Atom (of_opt (py_or t (Some ''follow_firefront'')))) alt_tactic1)))))"

definition collapse_integral :: "scalar \<Rightarrow> py_error + scalar" where
  \<comment> \<open>\<^verbatim>\<open>int(val) if isinstance(val, (float, int)) and float(val).is_integer() else val\<close>.
      A bool is an int in Python; \<^verbatim>\<open>float(val)\<close> of a very large int raises.\<close>
  "collapse_integral val =
     (case val of
        SBool b \<Rightarrow> Inr (SInt (if b then 1 else 0))
      | SInt n \<Rightarrow> if float_overflows n then Inl OverflowError else Inr (SInt n)
      | SFloat f \<Rightarrow>
          if is_integer f
          then (case int_of_float f of Inl e \<Rightarrow> Inl e | Inr n \<Rightarrow> Inr (SInt n))
          else Inr (SFloat f)
      | _ \<Rightarrow> Inr val)"

definition bs_thresh :: "string \<Rightarrow> string \<Rightarrow> row \<Rightarrow> py_error + scalar" where
  \<comment> \<open>The variable \<^verbatim>\<open>thresh\<close>; \<open>SNone\<close> is its initial \<^verbatim>\<open>None\<close>.\<close>
  "bs_thresh main_prefix alt_prefix row =
     (if \<not> is_na (row_get row (alt_prefix @ ''threshold''))
      then collapse_integral (row_get row (alt_prefix @ ''threshold''))
      else if \<not> is_na (row_get row (main_prefix @ ''threshold''))
      then collapse_integral (row_get row (main_prefix @ ''threshold''))
      else Inr SNone)"

definition bs_change_cond ::
  "(pyfloat \<Rightarrow> string) \<Rightarrow> string \<Rightarrow> string \<Rightarrow> row \<Rightarrow> py_error + string option" where
  \<comment> \<open>The variable \<^verbatim>\<open>change_cond\<close>: \<^verbatim>\<open>or\<close> calls its second operand only when the
      first is false.\<close>
  "bs_change_cond float_str main_prefix alt_prefix row =
     (case safe_str float_str (row_get row (alt_prefix @ ''change_condition'')) of
        Inl e \<Rightarrow> Inl e
      | Inr a \<Rightarrow>
          if truthy (of_opt a) then Inr a
          else safe_str float_str (row_get row (main_prefix @ ''change_condition'')))"

definition bs_alt_obj ::
  "(pyfloat \<Rightarrow> string) \<Rightarrow> string \<Rightarrow> string \<Rightarrow> row \<Rightarrow> pydict \<Rightarrow> py_error + pydict" where
  \<comment> \<open>The dictionary \<^verbatim>\<open>alt_obj\<close>, given the finished \<^verbatim>\<open>alt_tactic\<close>.\<close>
  "bs_alt_obj float_str main_prefix alt_prefix row alt_tactic =
     (case bs_change_cond float_str main_prefix alt_prefix row of
        Inl e \<Rightarrow> Inl e
      | Inr change_cond \<Rightarrow>
          (let alt_obj = (if truthy (of_opt change_cond)
                          then AList.update ''change_condition'' (Atom (of_opt change_cond)) []
                          else [])
           in case bs_thresh main_prefix alt_prefix row of
                Inl e \<Rightarrow> Inl e
              | Inr thresh \<Rightarrow>
                  Inr (AList.update ''alternative_tactic'' (PDict alt_tactic)
                        (if thresh \<noteq> SNone then AList.update ''threshold'' (Atom thresh) alt_obj
                         else alt_obj))))"

definition build_suppression ::
  "(pyfloat \<Rightarrow> string) \<Rightarrow> string \<Rightarrow> string \<Rightarrow> row \<Rightarrow> py_error + pyval" where
  "build_suppression float_str main_prefix alt_prefix row =
     (case bs_main float_str main_prefix row of
        Inl e \<Rightarrow> Inl e
      | Inr main \<Rightarrow>
          (let tactic = [(''main'', PDict main)]
           in case bs_alt_present float_str main_prefix alt_prefix row of
                Inl e \<Rightarrow> Inl e
              | Inr alt_present \<Rightarrow>
                  if alt_present then
                    (case bs_alt_tactic float_str alt_prefix row main of
                       Inl e \<Rightarrow> Inl e
                     | Inr alt_tactic \<Rightarrow>
                         (case bs_alt_obj float_str main_prefix alt_prefix row alt_tactic of
                            Inl e \<Rightarrow> Inl e
                          | Inr alt_obj \<Rightarrow>
                              Inr (PDict (AList.update ''alternative'' (PDict alt_obj) tactic))))
                  else Inr (PDict tactic)))"

section \<open>The scenario assembler\<close>

definition read_count :: "row \<Rightarrow> string \<Rightarrow> py_error + int" where
  \<comment> \<open>\<^verbatim>\<open>int(row.get(k, 0)) if pd.notna(row.get(k)) else 0\<close>\<close>
  "read_count row k = (if \<not> is_na (row_get row k) then py_int (row_get row k) else Inr 0)"

definition group_entry ::
  "(pyfloat \<Rightarrow> string) \<Rightarrow> string \<Rightarrow> string \<Rightarrow> row \<Rightarrow> int \<Rightarrow> py_error + pyval list" where
  \<comment> \<open>One group's block of \<^verbatim>\<open>main\<close>: what it appends to \<^verbatim>\<open>scenario_entries\<close>.\<close>
  "group_entry float_str main_prefix alt_prefix row count =
     (if count > 0 then
        (case distribute_across_bases count NUM_BASES of
           Inl e \<Rightarrow> Inl e
         | Inr apb \<Rightarrow>
             (case build_suppression float_str main_prefix alt_prefix row of
                Inl e \<Rightarrow> Inl e
              | Inr suppression \<Rightarrow>
                  Inr [PDict [(''file_name'', Atom (SStr AIRCRAFT_FILE)),
                              (''agents_per_base'', PList (map (\<lambda>n. Atom (SInt n)) apb)),
                              (''suppression_tactic'', suppression)]]))
      else Inr [])"

definition scenario_blank :: "(pyfloat \<Rightarrow> string) \<Rightarrow> scalar \<Rightarrow> py_error + bool" where
  \<comment> \<open>\<^verbatim>\<open>pd.isna(scen) or str(scen).strip() == ""\<close>\<close>
  "scenario_blank float_str scen =
     (if is_na scen then Inr True
      else (case py_str float_str scen of Inl e \<Rightarrow> Inl e | Inr t \<Rightarrow> Inr (strip t = [])))"

definition process_row ::
  "(pyfloat \<Rightarrow> string) \<Rightarrow> row \<Rightarrow> pyval list \<Rightarrow> py_error + pyval list" where
  \<comment> \<open>The body of the loop of \<^verbatim>\<open>main\<close>, on the list \<^verbatim>\<open>scenarios\<close>.\<close>
  "process_row float_str row scenarios =
     (case scenario_blank float_str (row_get row ''scenario'') of
        Inl e \<Rightarrow> Inl e
      | Inr blank \<Rightarrow>
          if blank then Inr scenarios
          else
           (case read_count row ''first group'' of
              Inl e \<Rightarrow> Inl e
            | Inr first_count \<Rightarrow>
           (case group_entry float_str ''g1_'' ''g1a_'' row first_count of
              Inl e \<Rightarrow> Inl e
            | Inr entries1 \<Rightarrow>
           (case read_count row ''second group'' of
              Inl e \<Rightarrow> Inl e
            | Inr second_count \<Rightarrow>
           (case group_entry float_str ''g2_'' ''g2a_'' row second_count of
              Inl e \<Rightarrow> Inl e
            | Inr entries2 \<Rightarrow>
                (let scenario_entries = entries1 @ entries2
                 in Inr (if scenario_entries \<noteq> [] then scenarios @ [PList scenario_entries]
                         else scenarios)))))))"

fun main_loop :: "(pyfloat \<Rightarrow> string) \<Rightarrow> row list \<Rightarrow> pyval list \<Rightarrow> py_error + pyval list" where
  \<comment> \<open>\<^verbatim>\<open>for _, row in df.iterrows()\<close>: an exception ends the run.\<close>
  "main_loop float_str [] scenarios = Inr scenarios"
| "main_loop float_str (row # rows) scenarios =
     (case process_row float_str row scenarios of
        Inl e \<Rightarrow> Inl e
      | Inr scenarios' \<Rightarrow> main_loop float_str rows scenarios')"

section \<open>Facts about the built-in conversions\<close>

lemma rev_dropWhile_takeWhile:
  "xs = rev (dropWhile P (rev xs)) @ rev (takeWhile P (rev xs))"
proof -
  have "rev (rev xs) = rev (takeWhile P (rev xs) @ dropWhile P (rev xs))"
    by (simp only: takeWhile_dropWhile_id)
  then show ?thesis by (simp only: rev_rev_ident rev_append)
qed

lemma dropWhile_all_iff: "(\<forall>c \<in> set (dropWhile P xs). P c) \<longleftrightarrow> dropWhile P xs = []"
proof
  assume all: "\<forall>c \<in> set (dropWhile P xs). P c"
  show "dropWhile P xs = []"
  proof (rule ccontr)
    assume ne: "dropWhile P xs \<noteq> []"
    then have "\<not> P (hd (dropWhile P xs))" by (rule hd_dropWhile)
    moreover have "hd (dropWhile P xs) \<in> set (dropWhile P xs)" using ne by (rule hd_in_set)
    ultimately show False using all by blast
  qed
next
  assume e: "dropWhile P xs = []"
  show "\<forall>c \<in> set (dropWhile P xs). P c" unfolding e by simp
qed

lemma strip_empty_iff: "strip s = [] \<longleftrightarrow> (\<forall>c \<in> set s. is_space c)"
proof -
  have "strip s = [] \<longleftrightarrow> (\<forall>c \<in> set (dropWhile is_space s). is_space c)"
    by (simp add: strip_def dropWhile_eq_Nil_conv)
  also have "\<dots> \<longleftrightarrow> dropWhile is_space s = []"
    by (rule dropWhile_all_iff)
  also have "\<dots> \<longleftrightarrow> (\<forall>c \<in> set s. is_space c)"
    by (simp add: dropWhile_eq_Nil_conv)
  finally show ?thesis .
qed

lemma strip_decompose:
  "\<exists>l r. s = l @ strip s @ r \<and> (\<forall>c \<in> set l. is_space c) \<and> (\<forall>c \<in> set r. is_space c)"
proof -
  define d where "d = dropWhile is_space s"
  define l where "l = takeWhile is_space s"
  define r where "r = rev (takeWhile is_space (rev d))"
  have d: "d = strip s @ r"
    unfolding strip_def r_def d_def by (rule rev_dropWhile_takeWhile)
  have "s = l @ d" by (simp add: l_def d_def)
  with d have "s = l @ strip s @ r" by simp
  moreover have "\<forall>c \<in> set l. is_space c" by (auto simp: l_def dest: set_takeWhileD)
  moreover have "\<forall>c \<in> set r. is_space c" by (auto simp: r_def dest: set_takeWhileD)
  ultimately show ?thesis by blast
qed

lemma strip_ends:
  assumes "strip s \<noteq> []"
  shows "\<not> is_space (hd (strip s))" and "\<not> is_space (last (strip s))"
proof -
  define d where "d = dropWhile is_space s"
  have ne: "dropWhile is_space (rev d) \<noteq> []" using assms by (simp add: strip_def d_def)
  then have "\<not> is_space (hd (dropWhile is_space (rev d)))" by (rule hd_dropWhile)
  then show "\<not> is_space (last (strip s))"
    using ne by (simp add: strip_def d_def last_rev)
  have dd: "d = strip s @ rev (takeWhile is_space (rev d))"
    unfolding strip_def d_def by (rule rev_dropWhile_takeWhile)
  have "hd (strip s @ rev (takeWhile is_space (rev d))) = hd (strip s)"
    using assms by (rule hd_append2)
  with dd have hd_eq: "hd d = hd (strip s)" by simp
  have "d \<noteq> []" using dd assms by auto
  then have "\<not> is_space (hd d)" unfolding d_def by (rule hd_dropWhile)
  with hd_eq show "\<not> is_space (hd (strip s))" by simp
qed

section \<open>Facts about the base distributor\<close>

lemma incr_each_append:
  "incr_each (is @ js) counts =
     (case incr_each is counts of Inl e \<Rightarrow> Inl e | Inr counts' \<Rightarrow> incr_each js counts')"
  by (induction "is" arbitrary: counts) auto

lemma incr_each_upt_replicate:
  "r \<le> n \<Longrightarrow> incr_each [0 ..< r] (replicate n b) = Inr (replicate r (b + 1) @ replicate (n - r) b)"
proof (induction r)
  case 0
  then show ?case by simp
next
  case (Suc r)
  then have r: "r < n" by simp
  have upd: "(replicate r (b + 1) @ replicate (n - r) b)[r := b + 1]
        = replicate (Suc r) (b + 1) @ replicate (n - Suc r) b"
  proof -
    from r obtain m where m: "n - r = Suc m" by (cases "n - r") auto
    then have "n - Suc r = m" by simp
    with m show ?thesis by (simp add: list_update_append replicate_append_same)
  qed
  from Suc r show ?case
    by (simp add: incr_each_append nth_append upd del: replicate_Suc)
qed

lemma distribute_ge:
  assumes "1 \<le> nb" and "nb \<le> tot"
  shows "distribute_across_bases tot nb =
           Inr (replicate (nat (tot mod nb)) (tot div nb + 1)
                @ replicate (nat nb - nat (tot mod nb)) (tot div nb))"
proof -
  have "nat (tot mod nb) \<le> nat nb" using assms by (simp add: nat_le_eq_zle less_imp_le)
  then show ?thesis using assms
    by (simp add: distribute_across_bases_def Let_def incr_each_upt_replicate)
qed

lemma distribute_lt:
  "tot < nb \<Longrightarrow> distribute_across_bases tot nb =
      Inr (replicate (nat tot) 1 @ replicate (nat (nb - tot)) 0)"
  by (simp add: distribute_across_bases_def)

lemma distribute_ge_sum:
  assumes "1 \<le> nb" and "nb \<le> tot"
  shows "sum_list (replicate (nat (tot mod nb)) (tot div nb + 1)
                   @ replicate (nat nb - nat (tot mod nb)) (tot div nb)) = tot"
proof -
  define q where "q = tot div nb"
  define r where "r = nat (tot mod nb)"
  have r_le: "r \<le> nat nb" using assms by (simp add: r_def nat_le_eq_zle less_imp_le)
  have r_int: "int r = tot mod nb" using assms by (simp add: r_def)
  have "sum_list (replicate r (q + 1) @ replicate (nat nb - r) q)
          = int r * (q + 1) + int (nat nb - r) * q"
    by (simp add: sum_list_replicate)
  also have "\<dots> = nb * q + int r" using r_le assms
    by (simp add: of_nat_diff algebra_simps)
  also have "\<dots> = tot" by (simp add: q_def r_int)
  finally show ?thesis by (simp add: q_def r_def)
qed

lemma distribute_contract:
  assumes "1 \<le> nb" and "0 \<le> tot"
  shows "\<exists>counts. distribute_across_bases tot nb = Inr counts
           \<and> int (length counts) = nb \<and> sum_list counts = tot"
proof (cases "nb \<le> tot")
  case True
  have "nat (tot mod nb) \<le> nat nb" using assms by (simp add: nat_le_eq_zle less_imp_le)
  then have "int (length (replicate (nat (tot mod nb)) (tot div nb + 1)
                @ replicate (nat nb - nat (tot mod nb)) (tot div nb))) = nb"
    using assms by simp
  with distribute_ge [OF assms(1) True] distribute_ge_sum [OF assms(1) True]
  show ?thesis by blast
next
  case False
  then have lt: "tot < nb" by simp
  have "int (length (replicate (nat tot) (1::int) @ replicate (nat (nb - tot)) 0)) = nb"
    using assms lt by simp
  moreover have "sum_list (replicate (nat tot) (1::int) @ replicate (nat (nb - tot)) 0) = tot"
    using assms by (simp add: sum_list_replicate)
  ultimately show ?thesis using distribute_lt [OF lt] by blast
qed

section \<open>The base distributor: claims\<close>

text \<open>
  C3. For \<open>tot \<ge> num_bases \<ge> 1\<close> the distributor returns (it raises nothing) a list of
  exactly \<open>num_bases\<close> non-negative integers that sum to \<open>tot\<close>; the entry at index \<open>i\<close> is
  \<open>tot div num_bases + 1\<close> when \<open>i < tot mod num_bases\<close> and \<open>tot div num_bases\<close> otherwise,
  so the larger values fill exactly the first \<open>tot mod num_bases\<close> positions.
\<close>

theorem distribute_across_bases_even_split:
  assumes "1 \<le> num_bases" and "num_bases \<le> tot"
  shows "\<exists>counts. distribute_across_bases tot num_bases = Inr counts
           \<and> int (length counts) = num_bases
           \<and> (\<forall>c \<in> set counts. 0 \<le> c)
           \<and> sum_list counts = tot
           \<and> (\<forall>i < length counts.
                 counts ! i = (if int i < tot mod num_bases then tot div num_bases + 1
                               else tot div num_bases))"
proof -
  define q where "q = tot div num_bases"
  define r where "r = nat (tot mod num_bases)"
  define counts where "counts = replicate r (q + 1) @ replicate (nat num_bases - r) q"
  have r_le: "r \<le> nat num_bases" using assms by (simp add: r_def nat_le_eq_zle less_imp_le)
  have r_int: "int r = tot mod num_bases" using assms by (simp add: r_def)
  have q0: "0 \<le> q" using assms by (simp add: q_def pos_imp_zdiv_nonneg_iff)
  have eq: "distribute_across_bases tot num_bases = Inr counts"
    using distribute_ge [OF assms] by (simp add: counts_def q_def r_def)
  have len: "int (length counts) = num_bases" using r_le assms by (simp add: counts_def)
  have nonneg: "\<forall>c \<in> set counts. 0 \<le> c" using q0 by (auto simp: counts_def)
  have total: "sum_list counts = tot"
    using distribute_ge_sum [OF assms] by (simp add: counts_def q_def r_def)
  have idx: "\<forall>i < length counts. counts ! i = (if int i < tot mod num_bases then q + 1 else q)"
  proof (intro allI impI)
    fix i assume "i < length counts"
    then have i: "i < nat num_bases" using r_le by (simp add: counts_def)
    have "(int i < tot mod num_bases) = (i < r)" using r_int by linarith
    then show "counts ! i = (if int i < tot mod num_bases then q + 1 else q)"
      using i by (simp add: counts_def nth_append)
  qed
  from eq len nonneg total idx show ?thesis unfolding q_def by blast
qed

theorem distribute_across_bases_even_split_witness:
  "(1::int) \<le> 2 \<and> (2::int) \<le> 5 \<and>
   (\<exists>counts. distribute_across_bases 5 2 = Inr counts
           \<and> int (length counts) = 2
           \<and> (\<forall>c \<in> set counts. 0 \<le> c)
           \<and> sum_list counts = 5
           \<and> (\<forall>i < length counts.
                 counts ! i = (if int i < 5 mod 2 then 5 div 2 + 1 else 5 div 2)))"
  using distribute_across_bases_even_split [of 2 5] by simp

text \<open>
  C4. For \<open>0 \<le> tot < num_bases\<close> (and \<open>num_bases \<ge> 1\<close>) the distributor returns exactly
  \<open>tot\<close> ones followed by \<open>num_bases - tot\<close> zeros; for \<open>tot = 0\<close> that is \<open>num_bases\<close> zeros.
\<close>

theorem distribute_across_bases_ones_then_zeros:
  assumes "0 \<le> tot" and "tot < num_bases" and "1 \<le> num_bases"
  shows "distribute_across_bases tot num_bases
           = Inr (replicate (nat tot) 1 @ replicate (nat (num_bases - tot)) 0)
         \<and> (tot = 0 \<longrightarrow>
              distribute_across_bases tot num_bases = Inr (replicate (nat num_bases) 0))"
  using assms by (simp add: distribute_lt)

theorem distribute_across_bases_ones_then_zeros_witness:
  "(0::int) \<le> 1 \<and> (1::int) < 3 \<and> (1::int) \<le> 3
   \<and> distribute_across_bases 1 3 = Inr [1, 0, 0]
   \<and> (0::int) \<le> 0 \<and> (0::int) < 2 \<and> (1::int) \<le> 2
   \<and> distribute_across_bases 0 2 = Inr [0, 0]"
  using distribute_across_bases_ones_then_zeros [of 1 3]
        distribute_across_bases_ones_then_zeros [of 0 2]
  by (simp add: numeral_2_eq_2 numeral_3_eq_3)

section \<open>Facts about the cell normalizer\<close>

lemma py_str_Inl_iff:
  "py_str fs v = Inl e \<longleftrightarrow> e = ValueError \<and> (\<exists>n. v = SInt n \<and> exceeds_max_str_digits n)"
  by (cases v) (auto simp: py_str_def)

lemma safe_str_Inl_iff:
  "safe_str fs v = Inl e \<longleftrightarrow> e = ValueError \<and> (\<exists>n. v = SInt n \<and> exceeds_max_str_digits n)"
proof (cases "py_str fs v")
  case (Inl e')
  then have "e' = ValueError \<and> (\<exists>n. v = SInt n \<and> exceeds_max_str_digits n)"
    by (simp add: py_str_Inl_iff)
  then show ?thesis using Inl by (auto simp: safe_str_def is_na_def)
next
  case (Inr t)
  then have "\<not> (\<exists>n. v = SInt n \<and> exceeds_max_str_digits n)"
    using py_str_Inl_iff [of fs v ValueError] by auto
  then show ?thesis using Inr by (auto simp: safe_str_def Let_def)
qed

lemma safe_str_Inr_not_empty: "safe_str fs v = Inr x \<Longrightarrow> x \<noteq> Some []"
  by (cases "py_str fs v") (auto simp: safe_str_def Let_def split: if_splits)

lemma safe_str_Inr_iff:
  "safe_str fs v = Inr x \<longleftrightarrow>
     (v = SNone \<and> x = None)
     \<or> (v \<noteq> SNone \<and> (\<exists>t. py_str fs v = Inr t
            \<and> x = (if strip t \<noteq> [] then Some (strip t) else None)))"
  by (cases "py_str fs v") (auto simp: safe_str_def is_na_def Let_def)

section \<open>Facts about the suppression tactic builder\<close>

lemma truthy_of_opt: "x \<noteq> Some [] \<Longrightarrow> truthy (of_opt x) = (x \<noteq> None)"
  by (cases x) (auto simp: truthy_def of_opt_def)

lemma of_opt_py_or:
  "x \<noteq> Some [] \<Longrightarrow> of_opt (py_or x (Some d)) = SStr (case x of None \<Rightarrow> d | Some s \<Rightarrow> s)"
  by (cases x) (auto simp: py_or_def of_opt_def truthy_def)

lemma of_opt_simps: "of_opt None = SNone" "of_opt (Some s) = SStr s"
  by (simp_all add: of_opt_def)

lemma present_or_none_truthy: "truthy (present_or_none v) = truthy v"
  by (simp add: present_or_none_def is_na_def truthy_def)

lemma set_if_present_Inr:
  assumes "safe_str fs c = Inr x"
  shows "set_if_present fs k c d =
           Inr (case x of None \<Rightarrow> d | Some s \<Rightarrow> AList.update k (Atom (SStr s)) d)"
proof -
  have ne: "x \<noteq> Some []" using assms by (rule safe_str_Inr_not_empty)
  show ?thesis
    unfolding set_if_present_def assms using ne
    by (cases x) (simp_all add: truthy_def of_opt_def)
qed

lemma set_if_present_Inr_cell:
  "set_if_present fs k c d = Inr d' \<Longrightarrow> \<exists>x. safe_str fs c = Inr x"
  by (cases "safe_str fs c") (simp_all add: set_if_present_def)

lemma set_if_present_Inl_iff:
  "set_if_present fs k c d = Inl e \<longleftrightarrow> safe_str fs c = Inl e"
  by (cases "safe_str fs c") (simp_all add: set_if_present_def)

lemma bs_main_Inr:
  assumes "safe_str fs (row_get row (mp @ ''select_poi'')) = Inr ms"
    and "safe_str fs (row_get row (mp @ ''track_poi'')) = Inr mt"
    and "safe_str fs (row_get row (mp @ ''suppress'')) = Inr mu"
  shows "bs_main fs mp row =
           Inr ((case mu of None \<Rightarrow> (\<lambda>d. d)
                          | Some s \<Rightarrow> AList.update ''suppress'' (Atom (SStr s)))
                ((case mt of None \<Rightarrow> (\<lambda>d. d)
                           | Some s \<Rightarrow> AList.update ''track_poi'' (Atom (SStr s)))
                 ((case ms of None \<Rightarrow> (\<lambda>d. d)
                            | Some s \<Rightarrow> AList.update ''select_poi'' (Atom (SStr s))) [])))"
  unfolding bs_main_def set_if_present_Inr [OF assms(1)] set_if_present_Inr [OF assms(2)]
    set_if_present_Inr [OF assms(3)]
  by (simp split: option.splits)

lemma bs_main_Inr_cells:
  assumes "bs_main fs mp row = Inr main"
  shows "\<exists>ms mt mu.
           safe_str fs (row_get row (mp @ ''select_poi'')) = Inr ms
         \<and> safe_str fs (row_get row (mp @ ''track_poi'')) = Inr mt
         \<and> safe_str fs (row_get row (mp @ ''suppress'')) = Inr mu"
proof -
  from assms obtain m1 m2 where
    a1: "set_if_present fs ''select_poi'' (row_get row (mp @ ''select_poi'')) [] = Inr m1"
    and a2: "set_if_present fs ''track_poi'' (row_get row (mp @ ''track_poi'')) m1 = Inr m2"
    and a3: "set_if_present fs ''suppress'' (row_get row (mp @ ''suppress'')) m2 = Inr main"
    by (auto simp: bs_main_def split: sum.splits)
  from set_if_present_Inr_cell [OF a1] set_if_present_Inr_cell [OF a2]
    set_if_present_Inr_cell [OF a3]
  show ?thesis by blast
qed

lemma bs_main_Inl:
  assumes "bs_main fs mp row = Inl e"
  shows "safe_str fs (row_get row (mp @ ''select_poi'')) = Inl e
       \<or> safe_str fs (row_get row (mp @ ''track_poi'')) = Inl e
       \<or> safe_str fs (row_get row (mp @ ''suppress'')) = Inl e"
  using assms
  by (auto simp: bs_main_def set_if_present_Inl_iff split: sum.splits)

lemma bs_main_lookup:
  assumes "bs_main fs mp row = Inr main"
    and "safe_str fs (row_get row (mp @ ''select_poi'')) = Inr ms"
    and "safe_str fs (row_get row (mp @ ''track_poi'')) = Inr mt"
    and "safe_str fs (row_get row (mp @ ''suppress'')) = Inr mu"
  shows "map_of main ''select_poi'' = map_option (\<lambda>s. Atom (SStr s)) ms"
    and "map_of main ''track_poi'' = map_option (\<lambda>s. Atom (SStr s)) mt"
    and "map_of main ''suppress'' = map_option (\<lambda>s. Atom (SStr s)) mu"
    and "ms = None \<Longrightarrow> mt = None \<Longrightarrow> mu = None \<Longrightarrow> main = []"
  using assms(1) unfolding bs_main_Inr [OF assms(2-4)]
  by (auto simp: update_conv' split: option.splits)

lemma get_lower_lookup:
  assumes "map_of main ''select_poi'' = map_option (\<lambda>s. Atom (SStr s)) ms"
  shows "get_lower main ''select_poi'' = Inr (lower (case ms of None \<Rightarrow> [] | Some s \<Rightarrow> s))"
  unfolding get_lower_def assms by (simp split: option.splits)

lemma bs_alt_tactic_Inr:
  assumes "safe_str fs (row_get row (ap @ ''select_poi'')) = Inr asel"
    and "safe_str fs (row_get row (ap @ ''track_poi'')) = Inr atrk"
    and "safe_str fs (row_get row (ap @ ''suppress'')) = Inr asup"
    and "get_lower main ''select_poi'' = Inr main_sel"
  shows "bs_alt_tactic fs ap row main =
     Inr [(''select_poi'',
           Atom (SStr (case asel of
                         Some s \<Rightarrow> s
                       | None \<Rightarrow> if main_sel = ''vegetation'' then ''water'' else ''vegetation''))),
          (''track_poi'', Atom (SStr (case atrk of None \<Rightarrow> ''follow_firefront'' | Some s \<Rightarrow> s))),
          (''suppress'', Atom (SStr (case asup of None \<Rightarrow> ''direct'' | Some s \<Rightarrow> s)))]"
proof -
  have ne: "asel \<noteq> Some []" "atrk \<noteq> Some []" "asup \<noteq> Some []"
    using assms(1-3) by (auto dest: safe_str_Inr_not_empty)
  show ?thesis
    using ne
    by (cases asel)
       (simp_all add: bs_alt_tactic_def assms truthy_def of_opt_simps of_opt_py_or)
qed

lemma bs_alt_present_Inr:
  assumes "safe_str fs (row_get row (ap @ ''select_poi'')) = Inr asel"
    and "safe_str fs (row_get row (ap @ ''track_poi'')) = Inr atrk"
    and "safe_str fs (row_get row (ap @ ''suppress'')) = Inr asup"
    and "safe_str fs (row_get row (ap @ ''change_condition'')) = Inr acc"
    and "safe_str fs (row_get row (mp @ ''change_condition'')) = Inr mcc"
  shows "bs_alt_present fs mp ap row =
           Inr (asel \<noteq> None \<or> atrk \<noteq> None \<or> asup \<noteq> None \<or> acc \<noteq> None
                \<or> truthy (row_get row (ap @ ''threshold''))
                \<or> mcc \<noteq> None
                \<or> truthy (row_get row (mp @ ''threshold'')))"
proof -
  have ne: "asel \<noteq> Some []" "atrk \<noteq> Some []" "asup \<noteq> Some []" "acc \<noteq> Some []"
    "mcc \<noteq> Some []"
    using assms by (auto dest: safe_str_Inr_not_empty)
  show ?thesis
    unfolding bs_alt_present_def bs_alt_fields_def bs_main_cond_thresh_def assms py_any_def
    by (simp add: truthy_of_opt [OF ne(1)] truthy_of_opt [OF ne(2)] truthy_of_opt [OF ne(3)]
          truthy_of_opt [OF ne(4)] truthy_of_opt [OF ne(5)] present_or_none_truthy)
qed

lemma bs_alt_present_Inr_cells:
  assumes "bs_alt_present fs mp ap row = Inr p"
  shows "\<exists>asel atrk asup acc mcc.
           safe_str fs (row_get row (ap @ ''select_poi'')) = Inr asel
         \<and> safe_str fs (row_get row (ap @ ''track_poi'')) = Inr atrk
         \<and> safe_str fs (row_get row (ap @ ''suppress'')) = Inr asup
         \<and> safe_str fs (row_get row (ap @ ''change_condition'')) = Inr acc
         \<and> safe_str fs (row_get row (mp @ ''change_condition'')) = Inr mcc"
  using assms
  by (auto simp: bs_alt_present_def bs_alt_fields_def bs_main_cond_thresh_def split: sum.splits)

lemma bs_alt_present_Inl:
  assumes "bs_alt_present fs mp ap row = Inl e"
  shows "safe_str fs (row_get row (ap @ ''select_poi'')) = Inl e
       \<or> safe_str fs (row_get row (ap @ ''track_poi'')) = Inl e
       \<or> safe_str fs (row_get row (ap @ ''suppress'')) = Inl e
       \<or> safe_str fs (row_get row (ap @ ''change_condition'')) = Inl e
       \<or> safe_str fs (row_get row (mp @ ''change_condition'')) = Inl e"
  using assms
  by (auto simp: bs_alt_present_def bs_alt_fields_def bs_main_cond_thresh_def split: sum.splits)

lemma bs_change_cond_Inr:
  assumes "safe_str fs (row_get row (ap @ ''change_condition'')) = Inr acc"
    and "safe_str fs (row_get row (mp @ ''change_condition'')) = Inr mcc"
  shows "bs_change_cond fs mp ap row = Inr (case acc of Some s \<Rightarrow> Some s | None \<Rightarrow> mcc)"
proof -
  have ne: "acc \<noteq> Some []" using assms(1) by (rule safe_str_Inr_not_empty)
  show ?thesis
    using ne
    by (cases acc) (simp_all add: bs_change_cond_def assms truthy_def of_opt_simps)
qed

lemma collapse_integral_Inl:
  "collapse_integral v = Inl e \<longleftrightarrow> e = OverflowError \<and> (\<exists>n. v = SInt n \<and> float_overflows n)"
  by (cases v) (auto simp: collapse_integral_def is_integer_def int_of_float_def split: pyfloat.splits)

lemma bs_thresh_Inl:
  "bs_thresh mp ap row = Inl e \<longleftrightarrow>
     e = OverflowError \<and>
     (\<exists>n. float_overflows n \<and>
          (row_get row (ap @ ''threshold'') = SInt n
           \<or> row_get row (ap @ ''threshold'') = SNone \<and> row_get row (mp @ ''threshold'') = SInt n))"
  by (auto simp: bs_thresh_def is_na_def collapse_integral_Inl)

lemma bs_thresh_value:
  assumes "bs_thresh mp ap row = Inr thresh"
  shows "(if thresh \<noteq> SNone then Some (Atom thresh) else None) =
     (case (if row_get row (ap @ ''threshold'') \<noteq> SNone then row_get row (ap @ ''threshold'')
            else row_get row (mp @ ''threshold'')) of
        SNone \<Rightarrow> None
      | SBool b \<Rightarrow> Some (Atom (SInt (if b then 1 else 0)))
      | SInt n \<Rightarrow> Some (Atom (SInt n))
      | SFloat f \<Rightarrow>
          (case f of
             Finite q \<Rightarrow> if of_int \<lfloor>q\<rfloor> = q then Some (Atom (SInt \<lfloor>q\<rfloor>))
                         else Some (Atom (SFloat f))
           | NegZero \<Rightarrow> Some (Atom (SInt 0))
           | PosInf \<Rightarrow> Some (Atom (SFloat f))
           | NegInf \<Rightarrow> Some (Atom (SFloat f)))
      | SStr s \<Rightarrow> Some (Atom (SStr s)))"
  using assms
  by (auto simp: bs_thresh_def is_na_def collapse_integral_def is_integer_def int_of_float_def
           split: if_splits scalar.splits pyfloat.splits)

lemma bs_alt_obj_cells:
  assumes "safe_str fs (row_get row (ap @ ''change_condition'')) = Inr acc"
    and "safe_str fs (row_get row (mp @ ''change_condition'')) = Inr mcc"
  shows "bs_alt_obj fs mp ap row atac =
     (case bs_thresh mp ap row of
        Inl e \<Rightarrow> Inl e
      | Inr thresh \<Rightarrow>
          Inr (AList.update ''alternative_tactic'' (PDict atac)
                (if thresh \<noteq> SNone
                 then AList.update ''threshold'' (Atom thresh)
                        (case (case acc of Some s \<Rightarrow> Some s | None \<Rightarrow> mcc) of
                           None \<Rightarrow> []
                         | Some c \<Rightarrow> [(''change_condition'', Atom (SStr c))])
                 else (case (case acc of Some s \<Rightarrow> Some s | None \<Rightarrow> mcc) of
                         None \<Rightarrow> []
                       | Some c \<Rightarrow> [(''change_condition'', Atom (SStr c))]))))"
proof -
  define cc where "cc = (case acc of Some s \<Rightarrow> Some s | None \<Rightarrow> mcc)"
  have "acc \<noteq> Some []" "mcc \<noteq> Some []"
    using assms by (auto dest: safe_str_Inr_not_empty)
  then have ne: "cc \<noteq> Some []" by (cases acc) (simp_all add: cc_def)
  have ch: "bs_change_cond fs mp ap row = Inr cc"
    unfolding cc_def by (rule bs_change_cond_Inr [OF assms])
  have obj0: "(if truthy (of_opt cc) then AList.update ''change_condition'' (Atom (of_opt cc)) []
               else [])
              = (case cc of None \<Rightarrow> [] | Some c \<Rightarrow> [(''change_condition'', Atom (SStr c))])"
    unfolding truthy_of_opt [OF ne] by (cases cc) (simp_all add: of_opt_def)
  have "bs_alt_obj fs mp ap row atac =
     (case bs_thresh mp ap row of
        Inl e \<Rightarrow> Inl e
      | Inr thresh \<Rightarrow>
          Inr (AList.update ''alternative_tactic'' (PDict atac)
                (if thresh \<noteq> SNone
                 then AList.update ''threshold'' (Atom thresh)
                        (case cc of
                           None \<Rightarrow> []
                         | Some c \<Rightarrow> [(''change_condition'', Atom (SStr c))])
                 else (case cc of
                         None \<Rightarrow> []
                       | Some c \<Rightarrow> [(''change_condition'', Atom (SStr c))]))))"
    by (simp add: bs_alt_obj_def ch Let_def obj0)
  then show ?thesis unfolding cc_def .
qed

lemma bs_alt_obj_lookup:
  assumes "bs_alt_obj fs mp ap row atac = Inr obj"
    and "safe_str fs (row_get row (ap @ ''change_condition'')) = Inr acc"
    and "safe_str fs (row_get row (mp @ ''change_condition'')) = Inr mcc"
  shows "\<exists>thresh. bs_thresh mp ap row = Inr thresh
           \<and> map_of obj ''alternative_tactic'' = Some (PDict atac)
           \<and> map_of obj ''threshold'' = (if thresh \<noteq> SNone then Some (Atom thresh) else None)
           \<and> map_of obj ''change_condition'' =
               (case acc of
                  Some s \<Rightarrow> Some (Atom (SStr s))
                | None \<Rightarrow> map_option (\<lambda>s. Atom (SStr s)) mcc)"
proof (cases "bs_thresh mp ap row")
  case (Inl e)
  with assms(1) show ?thesis unfolding bs_alt_obj_cells [OF assms(2,3)] by simp
next
  case (Inr thresh)
  with assms(1) have "obj = AList.update ''alternative_tactic'' (PDict atac)
                (if thresh \<noteq> SNone
                 then AList.update ''threshold'' (Atom thresh)
                        (case (case acc of Some s \<Rightarrow> Some s | None \<Rightarrow> mcc) of
                           None \<Rightarrow> []
                         | Some c \<Rightarrow> [(''change_condition'', Atom (SStr c))])
                 else (case (case acc of Some s \<Rightarrow> Some s | None \<Rightarrow> mcc) of
                         None \<Rightarrow> []
                       | Some c \<Rightarrow> [(''change_condition'', Atom (SStr c))]))"
    unfolding bs_alt_obj_cells [OF assms(2,3)] by simp
  then have "map_of obj ''alternative_tactic'' = Some (PDict atac)
           \<and> map_of obj ''threshold'' = (if thresh \<noteq> SNone then Some (Atom thresh) else None)
           \<and> map_of obj ''change_condition'' =
               (case acc of
                  Some s \<Rightarrow> Some (Atom (SStr s))
                | None \<Rightarrow> map_option (\<lambda>s. Atom (SStr s)) mcc)"
    by (cases acc; cases mcc) (simp_all add: update_conv')
  with Inr show ?thesis by blast
qed

lemma build_suppression_Inr_parts:
  assumes "build_suppression fs mp ap row = Inr t"
  shows "\<exists>main p.
           bs_main fs mp row = Inr main
         \<and> bs_alt_present fs mp ap row = Inr p
         \<and> (if p then
              (\<exists>atac obj. bs_alt_tactic fs ap row main = Inr atac
                  \<and> bs_alt_obj fs mp ap row atac = Inr obj
                  \<and> t = PDict [(''main'', PDict main), (''alternative'', PDict obj)])
            else t = PDict [(''main'', PDict main)])"
  using assms
  by (auto simp: build_suppression_def Let_def split: sum.splits if_splits)

lemma build_suppression_Inr_cells:
  assumes "build_suppression fs mp ap row = Inr t"
  shows "\<exists>main p ms mt mu asel atrk asup acc mcc.
           bs_main fs mp row = Inr main
         \<and> bs_alt_present fs mp ap row = Inr p
         \<and> dict_get t ''main'' = Some (PDict main)
         \<and> (has_key t ''alternative'' \<longleftrightarrow> p)
         \<and> safe_str fs (row_get row (mp @ ''select_poi'')) = Inr ms
         \<and> safe_str fs (row_get row (mp @ ''track_poi'')) = Inr mt
         \<and> safe_str fs (row_get row (mp @ ''suppress'')) = Inr mu
         \<and> safe_str fs (row_get row (ap @ ''select_poi'')) = Inr asel
         \<and> safe_str fs (row_get row (ap @ ''track_poi'')) = Inr atrk
         \<and> safe_str fs (row_get row (ap @ ''suppress'')) = Inr asup
         \<and> safe_str fs (row_get row (ap @ ''change_condition'')) = Inr acc
         \<and> safe_str fs (row_get row (mp @ ''change_condition'')) = Inr mcc"
proof -
  from build_suppression_Inr_parts [OF assms] obtain main p where
    m: "bs_main fs mp row = Inr main" and p: "bs_alt_present fs mp ap row = Inr p"
    and t: "if p then
              (\<exists>atac obj. bs_alt_tactic fs ap row main = Inr atac
                  \<and> bs_alt_obj fs mp ap row atac = Inr obj
                  \<and> t = PDict [(''main'', PDict main), (''alternative'', PDict obj)])
            else t = PDict [(''main'', PDict main)]"
    by blast
  have g: "dict_get t ''main'' = Some (PDict main)"
    using t by (auto simp: dict_get_def split: if_splits)
  have h: "has_key t ''alternative'' \<longleftrightarrow> p"
    using t by (auto simp: has_key_def dict_get_def split: if_splits)
  from m p g h bs_main_Inr_cells [OF m] bs_alt_present_Inr_cells [OF p]
  show ?thesis by blast
qed

lemma build_suppression_alternative_parts:
  assumes "build_suppression fs mp ap row = Inr t" and "has_key t ''alternative''"
  shows "\<exists>main atac obj.
           bs_main fs mp row = Inr main
         \<and> bs_alt_tactic fs ap row main = Inr atac
         \<and> bs_alt_obj fs mp ap row atac = Inr obj
         \<and> t = PDict [(''main'', PDict main), (''alternative'', PDict obj)]"
proof -
  from build_suppression_Inr_parts [OF assms(1)] obtain main p where
    m: "bs_main fs mp row = Inr main"
    and t: "if p then
              (\<exists>atac obj. bs_alt_tactic fs ap row main = Inr atac
                  \<and> bs_alt_obj fs mp ap row atac = Inr obj
                  \<and> t = PDict [(''main'', PDict main), (''alternative'', PDict obj)])
            else t = PDict [(''main'', PDict main)]"
    by blast
  have p using t assms(2) by (auto simp: has_key_def dict_get_def split: if_splits)
  with t m show ?thesis by auto
qed

lemma build_suppression_Inl:
  assumes "build_suppression fs mp ap row = Inl e"
  shows "safe_str fs (row_get row (mp @ ''select_poi'')) = Inl e
       \<or> safe_str fs (row_get row (mp @ ''track_poi'')) = Inl e
       \<or> safe_str fs (row_get row (mp @ ''suppress'')) = Inl e
       \<or> safe_str fs (row_get row (ap @ ''select_poi'')) = Inl e
       \<or> safe_str fs (row_get row (ap @ ''track_poi'')) = Inl e
       \<or> safe_str fs (row_get row (ap @ ''suppress'')) = Inl e
       \<or> safe_str fs (row_get row (ap @ ''change_condition'')) = Inl e
       \<or> safe_str fs (row_get row (mp @ ''change_condition'')) = Inl e
       \<or> bs_thresh mp ap row = Inl e"
proof (cases "bs_main fs mp row")
  case (Inl e')
  then have "e' = e" using assms by (simp add: build_suppression_def)
  with bs_main_Inl [OF Inl] show ?thesis by blast
next
  case m: (Inr main)
  show ?thesis
  proof (cases "bs_alt_present fs mp ap row")
    case (Inl e')
    then have "e' = e" using assms m by (simp add: build_suppression_def)
    with bs_alt_present_Inl [OF Inl] show ?thesis by blast
  next
    case p: (Inr p)
    from bs_main_Inr_cells [OF m] obtain ms mt mu where
      ms: "safe_str fs (row_get row (mp @ ''select_poi'')) = Inr ms"
      and mt: "safe_str fs (row_get row (mp @ ''track_poi'')) = Inr mt"
      and mu: "safe_str fs (row_get row (mp @ ''suppress'')) = Inr mu"
      by blast
    from bs_alt_present_Inr_cells [OF p] obtain asel atrk asup acc mcc where
      asel: "safe_str fs (row_get row (ap @ ''select_poi'')) = Inr asel"
      and atrk: "safe_str fs (row_get row (ap @ ''track_poi'')) = Inr atrk"
      and asup: "safe_str fs (row_get row (ap @ ''suppress'')) = Inr asup"
      and acc: "safe_str fs (row_get row (ap @ ''change_condition'')) = Inr acc"
      and mcc: "safe_str fs (row_get row (mp @ ''change_condition'')) = Inr mcc"
      by blast
    have gl: "get_lower main ''select_poi''
                = Inr (lower (case ms of None \<Rightarrow> [] | Some s \<Rightarrow> s))"
      by (rule get_lower_lookup [OF bs_main_lookup(1) [OF m ms mt mu]])
    note at = bs_alt_tactic_Inr [OF asel atrk asup gl]
    from assms have "bs_thresh mp ap row = Inl e"
      by (cases "bs_thresh mp ap row")
         (auto simp: build_suppression_def m p at Let_def bs_alt_obj_cells [OF acc mcc]
               split: if_splits)
    then show ?thesis by blast
  qed
qed

lemma exceeds_at_limit: "exceeds_max_str_digits (10 ^ INT_MAX_STR_DIGITS)"
  by (simp add: exceeds_max_str_digits_def)

lemma small_not_exceeds: "\<bar>n\<bar> < 10 \<Longrightarrow> \<not> exceeds_max_str_digits n"
proof -
  assume a: "\<bar>n\<bar> < 10"
  have "(10::int) ^ 1 \<le> 10 ^ INT_MAX_STR_DIGITS"
    by (rule power_increasing) (simp_all add: INT_MAX_STR_DIGITS_def)
  with a show ?thesis by (simp add: exceeds_max_str_digits_def)
qed

lemmas builder_defs =
  build_suppression_def bs_main_def bs_alt_present_def bs_alt_fields_def
  bs_main_cond_thresh_def bs_alt_tactic_def bs_alt_obj_def bs_change_cond_def bs_thresh_def
  collapse_integral_def set_if_present_def present_or_none_def get_lower_def py_any_def
  py_or_def of_opt_def truthy_def safe_str_def is_na_def row_get_def py_str_def strip_def
  is_space_def lower_def lower_char_def float_overflows_def is_integer_def int_of_float_def
  dict_get_def has_key_def char_of_def bit_Suc_0_iff

section \<open>The suppression tactic builder: claims\<close>

text \<open>
  C10. Whatever the row and the prefixes, a Tactic Block that \<open>build_suppression\<close> returns
  has the key \<open>main\<close>, and when the three main-prefixed fields are blank its value is the
  empty dictionary. The builder returns a block for every row but two kinds: it raises
  ValueError when one of the eight text cells it normalizes is an integer with more digits
  than the interpreter converts to text, and OverflowError when the threshold it would
  write is an integer too large for a double. A Group Entry can carry such an empty main
  tactic: the entry built from a row with no tactic cells and a count of 1 is shown.
\<close>

theorem build_suppression_always_has_main:
  "(case build_suppression fs mp ap row of
      Inr t \<Rightarrow>
        has_key t ''main''
        \<and> (safe_str fs (row_get row (mp @ ''select_poi'')) = Inr None
           \<and> safe_str fs (row_get row (mp @ ''track_poi'')) = Inr None
           \<and> safe_str fs (row_get row (mp @ ''suppress'')) = Inr None
           \<longrightarrow> dict_get t ''main'' = Some (PDict []))
    | Inl e \<Rightarrow>
        (e = ValueError
         \<and> (\<exists>k n. k \<in> set [mp @ ''select_poi'', mp @ ''track_poi'', mp @ ''suppress'',
                            ap @ ''select_poi'', ap @ ''track_poi'', ap @ ''suppress'',
                            ap @ ''change_condition'', mp @ ''change_condition'']
                \<and> row_get row k = SInt n \<and> exceeds_max_str_digits n))
        \<or> (e = OverflowError
            \<and> (\<exists>n. float_overflows n
                   \<and> (row_get row (ap @ ''threshold'') = SInt n
                      \<or> row_get row (ap @ ''threshold'') = SNone
                        \<and> row_get row (mp @ ''threshold'') = SInt n))))
   \<and> group_entry fs ''g1_'' ''g1a_'' Map.empty 1 =
       Inr [PDict [(''file_name'', Atom (SStr AIRCRAFT_FILE)),
                   (''agents_per_base'', PList [Atom (SInt 1), Atom (SInt 0)]),
                   (''suppression_tactic'', PDict [(''main'', PDict [])])]]"
proof (intro conjI)
  show "case build_suppression fs mp ap row of
      Inr t \<Rightarrow>
        has_key t ''main''
        \<and> (safe_str fs (row_get row (mp @ ''select_poi'')) = Inr None
           \<and> safe_str fs (row_get row (mp @ ''track_poi'')) = Inr None
           \<and> safe_str fs (row_get row (mp @ ''suppress'')) = Inr None
           \<longrightarrow> dict_get t ''main'' = Some (PDict []))
    | Inl e \<Rightarrow>
        (e = ValueError
         \<and> (\<exists>k n. k \<in> set [mp @ ''select_poi'', mp @ ''track_poi'', mp @ ''suppress'',
                            ap @ ''select_poi'', ap @ ''track_poi'', ap @ ''suppress'',
                            ap @ ''change_condition'', mp @ ''change_condition'']
                \<and> row_get row k = SInt n \<and> exceeds_max_str_digits n))
        \<or> (e = OverflowError
            \<and> (\<exists>n. float_overflows n
                   \<and> (row_get row (ap @ ''threshold'') = SInt n
                      \<or> row_get row (ap @ ''threshold'') = SNone
                        \<and> row_get row (mp @ ''threshold'') = SInt n)))"
  proof (cases "build_suppression fs mp ap row")
    case (Inl e)
    have cell: "e = ValueError
         \<and> (\<exists>k n. k \<in> set [mp @ ''select_poi'', mp @ ''track_poi'', mp @ ''suppress'',
                            ap @ ''select_poi'', ap @ ''track_poi'', ap @ ''suppress'',
                            ap @ ''change_condition'', mp @ ''change_condition'']
                \<and> row_get row k = SInt n \<and> exceeds_max_str_digits n)"
      if "k' \<in> set [mp @ ''select_poi'', mp @ ''track_poi'', mp @ ''suppress'',
                     ap @ ''select_poi'', ap @ ''track_poi'', ap @ ''suppress'',
                     ap @ ''change_condition'', mp @ ''change_condition'']"
        and "safe_str fs (row_get row k') = Inl e" for k'
      using that safe_str_Inl_iff [of fs "row_get row k'" e] by blast
    from build_suppression_Inl [OF Inl]
    consider (c) k' where
        "k' \<in> set [mp @ ''select_poi'', mp @ ''track_poi'', mp @ ''suppress'',
                     ap @ ''select_poi'', ap @ ''track_poi'', ap @ ''suppress'',
                     ap @ ''change_condition'', mp @ ''change_condition'']"
        "safe_str fs (row_get row k') = Inl e"
      | (th) "bs_thresh mp ap row = Inl e"
      by auto
    then have "(e = ValueError
         \<and> (\<exists>k n. k \<in> set [mp @ ''select_poi'', mp @ ''track_poi'', mp @ ''suppress'',
                            ap @ ''select_poi'', ap @ ''track_poi'', ap @ ''suppress'',
                            ap @ ''change_condition'', mp @ ''change_condition'']
                \<and> row_get row k = SInt n \<and> exceeds_max_str_digits n))
        \<or> (e = OverflowError
            \<and> (\<exists>n. float_overflows n
                   \<and> (row_get row (ap @ ''threshold'') = SInt n
                      \<or> row_get row (ap @ ''threshold'') = SNone
                        \<and> row_get row (mp @ ''threshold'') = SInt n)))"
    proof cases
      case c
      from cell [OF c] show ?thesis by (rule disjI1)
    next
      case th
      then show ?thesis by (simp add: bs_thresh_Inl)
    qed
    then show ?thesis using Inl by simp
  next
    case (Inr t)
    from build_suppression_Inr_cells [OF Inr] obtain main ms mt mu where
      m: "bs_main fs mp row = Inr main"
      and g: "dict_get t ''main'' = Some (PDict main)"
      and ms: "safe_str fs (row_get row (mp @ ''select_poi'')) = Inr ms"
      and mt: "safe_str fs (row_get row (mp @ ''track_poi'')) = Inr mt"
      and mu: "safe_str fs (row_get row (mp @ ''suppress'')) = Inr mu"
      by blast
    have "has_key t ''main''" using g by (simp add: has_key_def)
    moreover have "dict_get t ''main'' = Some (PDict [])"
      if "safe_str fs (row_get row (mp @ ''select_poi'')) = Inr None"
        and "safe_str fs (row_get row (mp @ ''track_poi'')) = Inr None"
        and "safe_str fs (row_get row (mp @ ''suppress'')) = Inr None"
    proof -
      from that ms mt mu have "ms = None" "mt = None" "mu = None" by simp_all
      then have "main = []" by (rule bs_main_lookup(4) [OF m ms mt mu])
      with g show ?thesis by simp
    qed
    ultimately show ?thesis using Inr by simp
  qed
  show "group_entry fs ''g1_'' ''g1a_'' Map.empty 1 =
       Inr [PDict [(''file_name'', Atom (SStr AIRCRAFT_FILE)),
                   (''agents_per_base'', PList [Atom (SInt 1), Atom (SInt 0)]),
                   (''suppression_tactic'', PDict [(''main'', PDict [])])]]"
    by (simp add: group_entry_def distribute_across_bases_def NUM_BASES_def builder_defs)
qed

theorem build_suppression_always_has_main_witness:
  "\<forall>fs. build_suppression fs ''g1_'' ''g1a_'' Map.empty = Inr (PDict [(''main'', PDict [])])
     \<and> safe_str fs (row_get Map.empty (''g1_'' @ ''select_poi'')) = Inr None
     \<and> safe_str fs (row_get Map.empty (''g1_'' @ ''track_poi'')) = Inr None
     \<and> safe_str fs (row_get Map.empty (''g1_'' @ ''suppress'')) = Inr None
     \<and> has_key (PDict [(''main'', PDict [])]) ''main''
     \<and> dict_get (PDict [(''main'', PDict [])]) ''main'' = Some (PDict [])
     \<and> build_suppression fs ''g1_'' ''g1a_'' (Map.empty(''g1a_threshold'' \<mapsto> SInt (2 ^ 1024)))
         = Inl OverflowError
     \<and> build_suppression fs ''g1_'' ''g1a_'' (Map.empty(''g1_suppress'' \<mapsto> SInt (10 ^ INT_MAX_STR_DIGITS)))
         = Inl ValueError"
proof
  fix fs
  have ev: "build_suppression fs ''g1_'' ''g1a_'' Map.empty = Inr (PDict [(''main'', PDict [])])"
    by (simp add: builder_defs)
  have blank: "safe_str fs (row_get Map.empty (''g1_'' @ ''select_poi'')) = Inr None"
    "safe_str fs (row_get Map.empty (''g1_'' @ ''track_poi'')) = Inr None"
    "safe_str fs (row_get Map.empty (''g1_'' @ ''suppress'')) = Inr None"
    by (simp_all add: safe_str_def row_get_def is_na_def)
  have ov: "build_suppression fs ''g1_'' ''g1a_'' (Map.empty(''g1a_threshold'' \<mapsto> SInt (2 ^ 1024)))
         = Inl OverflowError"
    by (simp add: builder_defs)
  have ve: "build_suppression fs ''g1_'' ''g1a_'' (Map.empty(''g1_suppress'' \<mapsto> SInt (10 ^ INT_MAX_STR_DIGITS)))
         = Inl ValueError"
    by (simp add: builder_defs exceeds_at_limit)
  from build_suppression_always_has_main
         [where fs = fs and mp = "''g1_''" and ap = "''g1a_''" and row = Map.empty] ev blank
  have "has_key (PDict [(''main'', PDict [])]) ''main''
     \<and> dict_get (PDict [(''main'', PDict [])]) ''main'' = Some (PDict [])"
    by simp
  with ev blank ov ve
  show "build_suppression fs ''g1_'' ''g1a_'' Map.empty = Inr (PDict [(''main'', PDict [])])
     \<and> safe_str fs (row_get Map.empty (''g1_'' @ ''select_poi'')) = Inr None
     \<and> safe_str fs (row_get Map.empty (''g1_'' @ ''track_poi'')) = Inr None
     \<and> safe_str fs (row_get Map.empty (''g1_'' @ ''suppress'')) = Inr None
     \<and> has_key (PDict [(''main'', PDict [])]) ''main''
     \<and> dict_get (PDict [(''main'', PDict [])]) ''main'' = Some (PDict [])
     \<and> build_suppression fs ''g1_'' ''g1a_'' (Map.empty(''g1a_threshold'' \<mapsto> SInt (2 ^ 1024)))
         = Inl OverflowError
     \<and> build_suppression fs ''g1_'' ''g1a_'' (Map.empty(''g1_suppress'' \<mapsto> SInt (10 ^ INT_MAX_STR_DIGITS)))
         = Inl ValueError"
    by blast
qed

text \<open>
  C5. Whenever the returned block has an \<open>alternative\<close>, that object holds an
  \<open>alternative_tactic\<close> whose \<open>select_poi\<close> is the normalized alternative-prefixed cell
  when it is not blank, and is otherwise derived from the \<open>select_poi\<close> of the main tactic
  in lower case: \<open>vegetation\<close> gives \<open>water\<close>, \<open>water\<close> gives \<open>vegetation\<close>, anything else
  (an absent key too) gives \<open>vegetation\<close>. Its \<open>track_poi\<close> and \<open>suppress\<close> are the
  alternative-prefixed cells when not blank, and \<open>follow_firefront\<close> and \<open>direct\<close>
  otherwise.
\<close>

theorem build_suppression_alternative_tactic:
  assumes "build_suppression fs mp ap row = Inr t" and "has_key t ''alternative''"
  shows "\<exists>m alt atac asel atrk asup.
           dict_get t ''main'' = Some m
         \<and> dict_get t ''alternative'' = Some alt
         \<and> dict_get alt ''alternative_tactic'' = Some atac
         \<and> safe_str fs (row_get row (ap @ ''select_poi'')) = Inr asel
         \<and> safe_str fs (row_get row (ap @ ''track_poi'')) = Inr atrk
         \<and> safe_str fs (row_get row (ap @ ''suppress'')) = Inr asup
         \<and> dict_get atac ''select_poi'' =
             Some (Atom (SStr
               (case asel of
                  Some s \<Rightarrow> s
                | None \<Rightarrow>
                    (let main_sel = lower (case dict_get m ''select_poi'' of
                                             Some (Atom (SStr x)) \<Rightarrow> x | _ \<Rightarrow> [])
                     in if main_sel = ''vegetation'' then ''water''
                        else if main_sel = ''water'' then ''vegetation''
                        else ''vegetation''))))
         \<and> dict_get atac ''track_poi'' =
             Some (Atom (SStr (case atrk of Some s \<Rightarrow> s | None \<Rightarrow> ''follow_firefront'')))
         \<and> dict_get atac ''suppress'' =
             Some (Atom (SStr (case asup of Some s \<Rightarrow> s | None \<Rightarrow> ''direct'')))"
proof -
  from build_suppression_alternative_parts [OF assms]
  obtain main atac obj where
    m: "bs_main fs mp row = Inr main"
    and a: "bs_alt_tactic fs ap row main = Inr atac"
    and obj: "bs_alt_obj fs mp ap row atac = Inr obj"
    and t: "t = PDict [(''main'', PDict main), (''alternative'', PDict obj)]"
    by blast
  from build_suppression_Inr_cells [OF assms(1)]
  obtain ms mt mu asel atrk asup acc mcc where
    ms: "safe_str fs (row_get row (mp @ ''select_poi'')) = Inr ms"
    and mt: "safe_str fs (row_get row (mp @ ''track_poi'')) = Inr mt"
    and mu: "safe_str fs (row_get row (mp @ ''suppress'')) = Inr mu"
    and asel: "safe_str fs (row_get row (ap @ ''select_poi'')) = Inr asel"
    and atrk: "safe_str fs (row_get row (ap @ ''track_poi'')) = Inr atrk"
    and asup: "safe_str fs (row_get row (ap @ ''suppress'')) = Inr asup"
    and acc: "safe_str fs (row_get row (ap @ ''change_condition'')) = Inr acc"
    and mcc: "safe_str fs (row_get row (mp @ ''change_condition'')) = Inr mcc"
    by blast
  have gm: "dict_get t ''main'' = Some (PDict main)"
    unfolding t by (simp add: dict_get_def)
  have ga: "dict_get t ''alternative'' = Some (PDict obj)"
    unfolding t by (simp add: dict_get_def)
  from bs_alt_obj_lookup [OF obj acc mcc]
  have at: "dict_get (PDict obj) ''alternative_tactic'' = Some (PDict atac)"
    by (auto simp: dict_get_def)
  have look: "map_of main ''select_poi'' = map_option (\<lambda>s. Atom (SStr s)) ms"
    by (rule bs_main_lookup(1) [OF m ms mt mu])
  have main_sel: "(case dict_get (PDict main) ''select_poi'' of
                     Some (Atom (SStr x)) \<Rightarrow> x | _ \<Rightarrow> [])
                  = (case ms of None \<Rightarrow> [] | Some s \<Rightarrow> s)"
    by (simp add: dict_get_def look split: option.splits)
  have atac: "atac =
     [(''select_poi'',
           Atom (SStr (case asel of
                         Some s \<Rightarrow> s
                       | None \<Rightarrow>
                           if lower (case ms of None \<Rightarrow> [] | Some s \<Rightarrow> s) = ''vegetation''
                           then ''water'' else ''vegetation''))),
          (''track_poi'', Atom (SStr (case atrk of None \<Rightarrow> ''follow_firefront'' | Some s \<Rightarrow> s))),
          (''suppress'', Atom (SStr (case asup of None \<Rightarrow> ''direct'' | Some s \<Rightarrow> s)))]"
    using a unfolding bs_alt_tactic_Inr [OF asel atrk asup get_lower_lookup [OF look]] by simp
  have sel: "dict_get (PDict atac) ''select_poi'' =
             Some (Atom (SStr
               (case asel of
                  Some s \<Rightarrow> s
                | None \<Rightarrow>
                    (let main_sel = lower (case dict_get (PDict main) ''select_poi'' of
                                             Some (Atom (SStr x)) \<Rightarrow> x | _ \<Rightarrow> [])
                     in if main_sel = ''vegetation'' then ''water''
                        else if main_sel = ''water'' then ''vegetation''
                        else ''vegetation''))))"
    unfolding main_sel unfolding atac
    by (simp add: dict_get_def Let_def split: option.splits)
  have tr: "dict_get (PDict atac) ''track_poi'' =
             Some (Atom (SStr (case atrk of Some s \<Rightarrow> s | None \<Rightarrow> ''follow_firefront'')))"
    unfolding atac by (simp add: dict_get_def split: option.splits)
  have su: "dict_get (PDict atac) ''suppress'' =
             Some (Atom (SStr (case asup of Some s \<Rightarrow> s | None \<Rightarrow> ''direct'')))"
    unfolding atac by (simp add: dict_get_def split: option.splits)
  from gm ga at asel atrk asup sel tr su show ?thesis by blast
qed

theorem build_suppression_alternative_tactic_witness:
  "\<forall>fs. \<exists>t. build_suppression fs ''g1_'' ''g1a_''
            (Map.empty(''g1_select_poi'' \<mapsto> SStr ''Vegetation'',
                       ''g1_change_condition'' \<mapsto> SStr ''wind_shift'',
                       ''g1a_suppress'' \<mapsto> SStr '' indirect '')) = Inr t
     \<and> has_key t ''alternative''
     \<and> (\<exists>m alt atac.
           dict_get t ''main'' = Some m
         \<and> dict_get m ''select_poi'' = Some (Atom (SStr ''Vegetation''))
         \<and> dict_get t ''alternative'' = Some alt
         \<and> dict_get alt ''alternative_tactic'' = Some atac
         \<and> dict_get atac ''select_poi'' = Some (Atom (SStr ''water''))
         \<and> dict_get atac ''track_poi'' = Some (Atom (SStr ''follow_firefront''))
         \<and> dict_get atac ''suppress'' = Some (Atom (SStr ''indirect'')))"
proof
  fix fs
  define row :: row where
    "row = Map.empty(''g1_select_poi'' \<mapsto> SStr ''Vegetation'',
                     ''g1_change_condition'' \<mapsto> SStr ''wind_shift'',
                     ''g1a_suppress'' \<mapsto> SStr '' indirect '')"
  define t where
    "t = PDict [(''main'', PDict [(''select_poi'', Atom (SStr ''Vegetation''))]),
                (''alternative'',
                 PDict [(''change_condition'', Atom (SStr ''wind_shift'')),
                        (''alternative_tactic'',
                         PDict [(''select_poi'', Atom (SStr ''water'')),
                                (''track_poi'', Atom (SStr ''follow_firefront'')),
                                (''suppress'', Atom (SStr ''indirect''))])])]"
  have ev: "build_suppression fs ''g1_'' ''g1a_'' row = Inr t"
    unfolding row_def t_def by (simp add: builder_defs)
  have hk: "has_key t ''alternative''"
    unfolding t_def by (simp add: has_key_def dict_get_def)
  have cells: "safe_str fs (row_get row (''g1a_'' @ ''select_poi'')) = Inr None"
    "safe_str fs (row_get row (''g1a_'' @ ''track_poi'')) = Inr None"
    "safe_str fs (row_get row (''g1a_'' @ ''suppress'')) = Inr (Some ''indirect'')"
    unfolding row_def by (simp_all add: builder_defs)
  from build_suppression_alternative_tactic [OF ev hk]
  obtain m alt atac asel atrk asup where
    "dict_get t ''main'' = Some m"
    "dict_get t ''alternative'' = Some alt"
    "dict_get alt ''alternative_tactic'' = Some atac"
    "safe_str fs (row_get row (''g1a_'' @ ''select_poi'')) = Inr asel"
    "safe_str fs (row_get row (''g1a_'' @ ''track_poi'')) = Inr atrk"
    "safe_str fs (row_get row (''g1a_'' @ ''suppress'')) = Inr asup"
    "dict_get atac ''select_poi'' =
             Some (Atom (SStr
               (case asel of
                  Some s \<Rightarrow> s
                | None \<Rightarrow>
                    (let main_sel = lower (case dict_get m ''select_poi'' of
                                             Some (Atom (SStr x)) \<Rightarrow> x | _ \<Rightarrow> [])
                     in if main_sel = ''vegetation'' then ''water''
                        else if main_sel = ''water'' then ''vegetation''
                        else ''vegetation''))))"
    "dict_get atac ''track_poi'' =
             Some (Atom (SStr (case atrk of Some s \<Rightarrow> s | None \<Rightarrow> ''follow_firefront'')))"
    "dict_get atac ''suppress'' =
             Some (Atom (SStr (case asup of Some s \<Rightarrow> s | None \<Rightarrow> ''direct'')))"
    by blast
  then have "dict_get t ''main'' = Some m
         \<and> dict_get m ''select_poi'' = Some (Atom (SStr ''Vegetation''))
         \<and> dict_get t ''alternative'' = Some alt
         \<and> dict_get alt ''alternative_tactic'' = Some atac
         \<and> dict_get atac ''select_poi'' = Some (Atom (SStr ''water''))
         \<and> dict_get atac ''track_poi'' = Some (Atom (SStr ''follow_firefront''))
         \<and> dict_get atac ''suppress'' = Some (Atom (SStr ''indirect''))"
    unfolding cells unfolding t_def
    by (auto simp: dict_get_def lower_def lower_char_def char_of_def bit_Suc_0_iff)
  with ev hk show "\<exists>t. build_suppression fs ''g1_'' ''g1a_''
            (Map.empty(''g1_select_poi'' \<mapsto> SStr ''Vegetation'',
                       ''g1_change_condition'' \<mapsto> SStr ''wind_shift'',
                       ''g1a_suppress'' \<mapsto> SStr '' indirect '')) = Inr t
     \<and> has_key t ''alternative''
     \<and> (\<exists>m alt atac.
           dict_get t ''main'' = Some m
         \<and> dict_get m ''select_poi'' = Some (Atom (SStr ''Vegetation''))
         \<and> dict_get t ''alternative'' = Some alt
         \<and> dict_get alt ''alternative_tactic'' = Some atac
         \<and> dict_get atac ''select_poi'' = Some (Atom (SStr ''water''))
         \<and> dict_get atac ''track_poi'' = Some (Atom (SStr ''follow_firefront''))
         \<and> dict_get atac ''suppress'' = Some (Atom (SStr ''indirect'')))"
    unfolding row_def by blast
qed

lemma floor_five_halves: "\<lfloor>5 / 2 :: rat\<rfloor> = 2"
  by (simp add: floor_eq_iff)

text \<open>
  C6. Whenever the returned block has an \<open>alternative\<close> object: its \<open>change_condition\<close> is
  the normalized alternative-prefixed cell when that is not blank and the normalized
  main-prefixed cell otherwise, and the key is absent exactly when both are blank. Its
  \<open>threshold\<close> comes from the alternative-prefixed cell when that is present, from the
  main-prefixed cell otherwise, and the key is absent when neither is present. A float with
  an integral value is written as that integer (\<open>3.0\<close> as \<open>3\<close>), an integer stays as it is,
  and any other number is written unchanged; text is written unchanged and a bool as 0 or 1.
\<close>

theorem build_suppression_condition_and_threshold:
  assumes "build_suppression fs mp ap row = Inr t"
    and "dict_get t ''alternative'' = Some alt"
  shows "\<exists>acc mcc.
         safe_str fs (row_get row (ap @ ''change_condition'')) = Inr acc
       \<and> safe_str fs (row_get row (mp @ ''change_condition'')) = Inr mcc
       \<and> dict_get alt ''change_condition'' =
           (case acc of
              Some s \<Rightarrow> Some (Atom (SStr s))
            | None \<Rightarrow> map_option (\<lambda>s. Atom (SStr s)) mcc)
       \<and> (dict_get alt ''change_condition'' = None \<longleftrightarrow> acc = None \<and> mcc = None)
       \<and> dict_get alt ''threshold'' =
           (case (if row_get row (ap @ ''threshold'') \<noteq> SNone
                  then row_get row (ap @ ''threshold'')
                  else row_get row (mp @ ''threshold'')) of
              SNone \<Rightarrow> None
            | SBool b \<Rightarrow> Some (Atom (SInt (if b then 1 else 0)))
            | SInt n \<Rightarrow> Some (Atom (SInt n))
            | SFloat f \<Rightarrow>
                (case f of
                   Finite q \<Rightarrow> if of_int \<lfloor>q\<rfloor> = q then Some (Atom (SInt \<lfloor>q\<rfloor>))
                               else Some (Atom (SFloat f))
                 | NegZero \<Rightarrow> Some (Atom (SInt 0))
                 | PosInf \<Rightarrow> Some (Atom (SFloat f))
                 | NegInf \<Rightarrow> Some (Atom (SFloat f)))
            | SStr s \<Rightarrow> Some (Atom (SStr s)))"
proof -
  have hk: "has_key t ''alternative''" using assms(2) by (simp add: has_key_def)
  from build_suppression_alternative_parts [OF assms(1) hk]
  obtain main atac obj where
    obj: "bs_alt_obj fs mp ap row atac = Inr obj"
    and t: "t = PDict [(''main'', PDict main), (''alternative'', PDict obj)]"
    by blast
  from build_suppression_Inr_cells [OF assms(1)]
  obtain acc mcc where
    acc: "safe_str fs (row_get row (ap @ ''change_condition'')) = Inr acc"
    and mcc: "safe_str fs (row_get row (mp @ ''change_condition'')) = Inr mcc"
    by blast
  from t assms(2) have alt: "alt = PDict obj" by (simp add: dict_get_def)
  from bs_alt_obj_lookup [OF obj acc mcc] obtain thresh where
    th: "bs_thresh mp ap row = Inr thresh"
    and lt: "map_of obj ''threshold'' = (if thresh \<noteq> SNone then Some (Atom thresh) else None)"
    and lc: "map_of obj ''change_condition'' =
               (case acc of
                  Some s \<Rightarrow> Some (Atom (SStr s))
                | None \<Rightarrow> map_option (\<lambda>s. Atom (SStr s)) mcc)"
    by blast
  have cc: "dict_get alt ''change_condition'' =
           (case acc of
              Some s \<Rightarrow> Some (Atom (SStr s))
            | None \<Rightarrow> map_option (\<lambda>s. Atom (SStr s)) mcc)"
    unfolding alt using lc by (simp add: dict_get_def)
  have cc_none: "dict_get alt ''change_condition'' = None \<longleftrightarrow> acc = None \<and> mcc = None"
    unfolding cc by (simp split: option.splits)
  have "dict_get alt ''threshold'' = (if thresh \<noteq> SNone then Some (Atom thresh) else None)"
    unfolding alt using lt by (simp add: dict_get_def)
  then have thr: "dict_get alt ''threshold'' =
           (case (if row_get row (ap @ ''threshold'') \<noteq> SNone
                  then row_get row (ap @ ''threshold'')
                  else row_get row (mp @ ''threshold'')) of
              SNone \<Rightarrow> None
            | SBool b \<Rightarrow> Some (Atom (SInt (if b then 1 else 0)))
            | SInt n \<Rightarrow> Some (Atom (SInt n))
            | SFloat f \<Rightarrow>
                (case f of
                   Finite q \<Rightarrow> if of_int \<lfloor>q\<rfloor> = q then Some (Atom (SInt \<lfloor>q\<rfloor>))
                               else Some (Atom (SFloat f))
                 | NegZero \<Rightarrow> Some (Atom (SInt 0))
                 | PosInf \<Rightarrow> Some (Atom (SFloat f))
                 | NegInf \<Rightarrow> Some (Atom (SFloat f)))
            | SStr s \<Rightarrow> Some (Atom (SStr s)))"
    unfolding bs_thresh_value [OF th] .
  show ?thesis
    by (rule exI [of _ acc], rule exI [of _ mcc]) (intro conjI acc mcc cc cc_none thr)
qed

theorem build_suppression_condition_and_threshold_witness:
  "\<forall>fs. \<exists>t alt. build_suppression fs ''g2_'' ''g2a_''
            (Map.empty(''g2_change_condition'' \<mapsto> SStr ''wind_shift'',
                       ''g2_threshold'' \<mapsto> SFloat (Finite 3),
                       ''g2a_threshold'' \<mapsto> SFloat (Finite (5 / 2)))) = Inr t
     \<and> dict_get t ''alternative'' = Some alt
     \<and> dict_get alt ''change_condition'' = Some (Atom (SStr ''wind_shift''))
     \<and> dict_get alt ''threshold'' = Some (Atom (SFloat (Finite (5 / 2))))"
proof
  fix fs
  define row :: row where
    "row = Map.empty(''g2_change_condition'' \<mapsto> SStr ''wind_shift'',
                     ''g2_threshold'' \<mapsto> SFloat (Finite 3),
                     ''g2a_threshold'' \<mapsto> SFloat (Finite (5 / 2)))"
  define alt where
    "alt = PDict [(''change_condition'', Atom (SStr ''wind_shift'')),
                  (''threshold'', Atom (SFloat (Finite (5 / 2)))),
                  (''alternative_tactic'',
                   PDict [(''select_poi'', Atom (SStr ''vegetation'')),
                          (''track_poi'', Atom (SStr ''follow_firefront'')),
                          (''suppress'', Atom (SStr ''direct''))])]"
  define t where "t = PDict [(''main'', PDict []), (''alternative'', alt)]"
  have ev: "build_suppression fs ''g2_'' ''g2a_'' row = Inr t"
    unfolding row_def t_def alt_def by (simp add: builder_defs floor_five_halves)
  have ga: "dict_get t ''alternative'' = Some alt"
    unfolding t_def by (simp add: dict_get_def)
  have cells: "safe_str fs (row_get row (''g2a_'' @ ''change_condition'')) = Inr None"
    "safe_str fs (row_get row (''g2_'' @ ''change_condition'')) = Inr (Some ''wind_shift'')"
    unfolding row_def by (simp_all add: builder_defs)
  from build_suppression_condition_and_threshold [OF ev ga]
  have "dict_get alt ''change_condition'' = Some (Atom (SStr ''wind_shift''))
     \<and> dict_get alt ''threshold'' = Some (Atom (SFloat (Finite (5 / 2))))"
    unfolding cells unfolding row_def by (auto simp: row_get_def floor_five_halves)
  with ev ga show "\<exists>t alt. build_suppression fs ''g2_'' ''g2a_''
            (Map.empty(''g2_change_condition'' \<mapsto> SStr ''wind_shift'',
                       ''g2_threshold'' \<mapsto> SFloat (Finite 3),
                       ''g2a_threshold'' \<mapsto> SFloat (Finite (5 / 2)))) = Inr t
     \<and> dict_get t ''alternative'' = Some alt
     \<and> dict_get alt ''change_condition'' = Some (Atom (SStr ''wind_shift''))
     \<and> dict_get alt ''threshold'' = Some (Atom (SFloat (Finite (5 / 2))))"
    unfolding row_def by blast
qed

text \<open>
  C1. The claim: the block has the key \<open>alternative\<close> only if a change condition or a
  threshold is present, so an \<open>alternative\<close> object always holds \<open>change_condition\<close> or
  \<open>threshold\<close>. The builder does otherwise on a row whose only cell is the
  alternative-prefixed \<open>select_poi\<close>: it returns an \<open>alternative\<close> object that holds the
  key \<open>alternative_tactic\<close> and nothing else.
\<close>

theorem build_suppression_alternative_without_condition:
  "build_suppression fs ''g1_'' ''g1a_'' (Map.empty(''g1a_select_poi'' \<mapsto> SStr ''water''))
     = Inr (PDict [(''main'', PDict []),
                   (''alternative'',
                    PDict [(''alternative_tactic'',
                            PDict [(''select_poi'', Atom (SStr ''water'')),
                                   (''track_poi'', Atom (SStr ''follow_firefront'')),
                                   (''suppress'', Atom (SStr ''direct''))])])])"
  by (simp add: builder_defs)

text \<open>
  C2. The claim: the block has the key \<open>alternative\<close> if and only if one of the
  alternative-prefixed tactic cells or change condition is not blank, or a threshold
  (alternative-prefixed or main-prefixed) is present, or the main-prefixed change
  condition is not blank. The builder tests the thresholds for truth, not for presence:
  on a row whose only cell is an alternative-prefixed threshold of 0, which is present,
  it returns a block with \<open>main\<close> alone.
\<close>

theorem build_suppression_zero_threshold_no_alternative:
  "build_suppression fs ''g1_'' ''g1a_'' (Map.empty(''g1a_threshold'' \<mapsto> SInt 0))
     = Inr (PDict [(''main'', PDict [])])
   \<and> \<not> is_na (row_get (Map.empty(''g1a_threshold'' \<mapsto> SInt 0)) (''g1a_'' @ ''threshold''))"
  by (simp add: builder_defs)

section \<open>The cell normalizer: claim\<close>

lemma strip_no_space:
  assumes "\<forall>c \<in> set s. \<not> is_space c"
  shows "strip s = s"
proof (cases "s = []")
  case True
  then show ?thesis by (simp add: strip_def)
next
  case False
  then have "\<not> is_space (hd s)" using assms by simp
  then have d1: "dropWhile is_space s = s" by (simp add: dropWhile_eq_self_iff)
  have "hd (rev s) = last s" using False by (simp add: hd_rev)
  moreover have "\<not> is_space (last s)" using assms False by simp
  ultimately have d2: "dropWhile is_space (rev s) = rev s" by (simp add: dropWhile_eq_self_iff)
  show ?thesis unfolding strip_def d1 d2 by simp
qed

lemma digit_char_not_space: "d < 10 \<Longrightarrow> \<not> is_space (digit_char d)"
  by (simp add: is_space_def digit_char_def)

lemma str_nat_no_space: "\<forall>c \<in> set (str_nat n). \<not> is_space c"
proof (induction n rule: str_nat.induct)
  case (1 n)
  show ?case
  proof (cases "n < 10")
    case True
    then show ?thesis by (subst str_nat.simps) (simp add: digit_char_not_space)
  next
    case False
    have "n mod 10 < 10" by simp
    then have "\<not> is_space (digit_char (n mod 10))" by (rule digit_char_not_space)
    with False 1 show ?thesis by (subst str_nat.simps) simp
  qed
qed

lemma str_nat_not_Nil: "str_nat n \<noteq> []"
  by (subst str_nat.simps) simp

lemma str_int_no_space: "\<forall>c \<in> set (str_int n). \<not> is_space c"
  using str_nat_no_space by (simp add: str_int_def is_space_def)

lemma str_int_not_Nil: "str_int n \<noteq> []"
  by (simp add: str_int_def str_nat_not_Nil)

text \<open>
  C8, as the claim states it: the normalizer has a value for every input and never fails.
  It does fail on one kind of input: for an integer cell with more decimal digits than
  the interpreter converts to text (4300 by default), \<^verbatim>\<open>str(val)\<close> raises ValueError and
  so does the normalizer. The smallest such integer is \<open>10 ^ 4300\<close>.
\<close>

theorem safe_str_raises_on_long_integer:
  "INT_MAX_STR_DIGITS = 4300
   \<and> (\<forall>fs. safe_str fs (SInt (10 ^ 4300)) = Inl ValueError)"
proof
  show "INT_MAX_STR_DIGITS = 4300" by (rule INT_MAX_STR_DIGITS_def)
  have e: "exceeds_max_str_digits (10 ^ 4300)"
    using exceeds_at_limit unfolding INT_MAX_STR_DIGITS_def .
  show "\<forall>fs. safe_str fs (SInt (10 ^ 4300)) = Inl ValueError"
  proof
    fix fs
    from e have "ValueError = ValueError
        \<and> (\<exists>n. SInt (10 ^ 4300) = SInt n \<and> exceeds_max_str_digits n)"
      by blast
    then show "safe_str fs (SInt (10 ^ 4300)) = Inl ValueError"
      by (rule iffD2 [OF safe_str_Inl_iff])
  qed
qed

text \<open>
  C8, amended. The normalizer is a function of its argument alone. It raises (ValueError)
  exactly on an integer with more decimal digits than the interpreter converts to text.
  On every other value it returns: \<open>None\<close> for a missing value and for a value whose
  text is empty or all whitespace, and otherwise the text with the surrounding whitespace
  removed: the text is some whitespace, then the result, then some whitespace, and the
  result neither starts nor ends with whitespace. Numeric content is kept as text: an
  integer cell within the limit gives its decimal digits, and the text \<open>3.0\<close> stays
  \<open>3.0\<close>.
\<close>

theorem safe_str_normalizes:
  "(safe_str fs v = Inl e \<longleftrightarrow>
      e = ValueError \<and> (\<exists>n. v = SInt n \<and> exceeds_max_str_digits n))
   \<and> ((\<nexists>n. v = SInt n \<and> exceeds_max_str_digits n) \<longrightarrow>
        (\<exists>t. py_str fs v = Inr t
           \<and> safe_str fs v =
               Inr (if v = SNone \<or> (\<forall>c \<in> set t. is_space c) then None else Some (strip t))
           \<and> (\<exists>l r. t = l @ strip t @ r
                  \<and> (\<forall>c \<in> set l. is_space c) \<and> (\<forall>c \<in> set r. is_space c))
           \<and> (strip t \<noteq> [] \<longrightarrow> \<not> is_space (hd (strip t)) \<and> \<not> is_space (last (strip t)))))
   \<and> (\<not> exceeds_max_str_digits n \<longrightarrow> safe_str fs (SInt n) = Inr (Some (str_int n)))
   \<and> safe_str fs (SStr '' 3.0 '') = Inr (Some ''3.0'')"
proof (intro conjI impI)
  show "safe_str fs v = Inl e \<longleftrightarrow>
      e = ValueError \<and> (\<exists>n. v = SInt n \<and> exceeds_max_str_digits n)"
    by (rule safe_str_Inl_iff)
next
  assume ok: "\<nexists>n. v = SInt n \<and> exceeds_max_str_digits n"
  obtain t where t: "py_str fs v = Inr t"
  proof (cases "py_str fs v")
    case (Inl e')
    then have "\<exists>n. v = SInt n \<and> exceeds_max_str_digits n" by (simp add: py_str_Inl_iff)
    with ok show ?thesis by simp
  next
    case (Inr t)
    then show ?thesis by (rule that)
  qed
  have val: "safe_str fs v =
               Inr (if v = SNone \<or> (\<forall>c \<in> set t. is_space c) then None else Some (strip t))"
    using strip_empty_iff [of t] by (simp add: safe_str_def t is_na_def Let_def)
  have dec: "\<exists>l r. t = l @ strip t @ r
                  \<and> (\<forall>c \<in> set l. is_space c) \<and> (\<forall>c \<in> set r. is_space c)"
    by (rule strip_decompose)
  have ends: "strip t \<noteq> [] \<longrightarrow> \<not> is_space (hd (strip t)) \<and> \<not> is_space (last (strip t))"
    using strip_ends [of t] by blast
  show "\<exists>t. py_str fs v = Inr t
           \<and> safe_str fs v =
               Inr (if v = SNone \<or> (\<forall>c \<in> set t. is_space c) then None else Some (strip t))
           \<and> (\<exists>l r. t = l @ strip t @ r
                  \<and> (\<forall>c \<in> set l. is_space c) \<and> (\<forall>c \<in> set r. is_space c))
           \<and> (strip t \<noteq> [] \<longrightarrow> \<not> is_space (hd (strip t)) \<and> \<not> is_space (last (strip t)))"
    by (rule exI [of _ t]) (intro conjI t val dec ends)
next
  assume "\<not> exceeds_max_str_digits n"
  moreover have "strip (str_int n) = str_int n" using str_int_no_space by (rule strip_no_space)
  ultimately show "safe_str fs (SInt n) = Inr (Some (str_int n))"
    by (simp add: safe_str_def is_na_def py_str_def Let_def str_int_not_Nil)
next
  show "safe_str fs (SStr '' 3.0 '') = Inr (Some ''3.0'')"
    by (simp add: safe_str_def is_na_def py_str_def strip_def is_space_def)
qed

theorem safe_str_normalizes_witness:
  "\<forall>fs. (\<nexists>n. SStr ''  abc '' = SInt n \<and> exceeds_max_str_digits n)
     \<and> safe_str fs (SStr ''  abc '') = Inr (Some ''abc'')
     \<and> strip ''  abc '' \<noteq> []
     \<and> \<not> is_space (hd (strip ''  abc ''))
     \<and> \<not> is_space (last (strip ''  abc ''))
     \<and> safe_str fs (SStr ''   '') = Inr None
     \<and> safe_str fs SNone = Inr None
     \<and> \<not> exceeds_max_str_digits 3
     \<and> safe_str fs (SInt 3) = Inr (Some ''3'')"
proof
  fix fs
  have s: "strip ''  abc '' = ''abc''"
    by (simp add: strip_def is_space_def)
  have "str_nat 3 = ''3''"
    by (subst str_nat.simps) (simp add: digit_char_def char_of_def bit_Suc_0_iff)
  then have three: "str_int 3 = ''3''"
    by (simp add: str_int_def)
  have small: "\<not> exceeds_max_str_digits 3" by (rule small_not_exceeds) simp
  have p1: "py_str fs (SStr ''  abc '') = Inr ''  abc ''" by (simp add: py_str_def)
  have nolong: "\<nexists>n. SStr ''  abc '' = SInt n \<and> exceeds_max_str_digits n" by simp
  from safe_str_normalizes [of fs "SStr ''  abc ''" ValueError 3] nolong
  obtain t where t: "py_str fs (SStr ''  abc '') = Inr t"
    and v: "safe_str fs (SStr ''  abc '') =
              Inr (if SStr ''  abc '' = SNone \<or> (\<forall>c \<in> set t. is_space c) then None
                   else Some (strip t))"
    and e: "strip t \<noteq> [] \<longrightarrow> \<not> is_space (hd (strip t)) \<and> \<not> is_space (last (strip t))"
    and i3: "\<not> exceeds_max_str_digits 3 \<longrightarrow> safe_str fs (SInt 3) = Inr (Some (str_int 3))"
    by blast
  from t p1 have tt: "t = ''  abc ''" by simp
  have notall: "\<not> (\<forall>c \<in> set ''  abc ''. is_space c)" by (simp add: is_space_def)
  have w1: "safe_str fs (SStr ''  abc '') = Inr (Some ''abc'')"
    using v notall unfolding tt s by simp
  have ne: "strip ''  abc '' \<noteq> []" unfolding s by simp
  have w2: "\<not> is_space (hd (strip ''  abc ''))" "\<not> is_space (last (strip ''  abc ''))"
    using e ne unfolding tt by simp_all
  have w3: "safe_str fs (SStr ''   '') = Inr None"
    by (simp add: safe_str_def is_na_def py_str_def strip_def is_space_def)
  have w4: "safe_str fs SNone = Inr None"
    by (simp add: safe_str_def is_na_def)
  have w5: "safe_str fs (SInt 3) = Inr (Some ''3'')"
    using i3 small unfolding three by simp
  from nolong w1 ne w2 w3 w4 small w5
  show "(\<nexists>n. SStr ''  abc '' = SInt n \<and> exceeds_max_str_digits n)
     \<and> safe_str fs (SStr ''  abc '') = Inr (Some ''abc'')
     \<and> strip ''  abc '' \<noteq> []
     \<and> \<not> is_space (hd (strip ''  abc ''))
     \<and> \<not> is_space (last (strip ''  abc ''))
     \<and> safe_str fs (SStr ''   '') = Inr None
     \<and> safe_str fs SNone = Inr None
     \<and> \<not> exceeds_max_str_digits 3
     \<and> safe_str fs (SInt 3) = Inr (Some ''3'')"
    by (intro conjI)
qed

section \<open>The distributor outside its contract, and the scenario assembler: claims\<close>

lemma group_entry_nonpositive: "count \<le> 0 \<Longrightarrow> group_entry fs mp ap row count = Inr []"
  by (simp add: group_entry_def)

lemma group_entry_positive:
  assumes "0 < count" and "group_entry fs mp ap row count = Inr es"
  shows "\<exists>apb suppression.
           distribute_across_bases count NUM_BASES = Inr apb
         \<and> int (length apb) = NUM_BASES \<and> sum_list apb = count
         \<and> build_suppression fs mp ap row = Inr suppression
         \<and> es = [PDict [(''file_name'', Atom (SStr AIRCRAFT_FILE)),
                         (''agents_per_base'', PList (map (\<lambda>n. Atom (SInt n)) apb)),
                         (''suppression_tactic'', suppression)]]"
proof -
  have "1 \<le> NUM_BASES" by (simp add: NUM_BASES_def)
  moreover have "0 \<le> count" using assms(1) by simp
  ultimately obtain apb where apb: "distribute_across_bases count NUM_BASES = Inr apb"
    and len: "int (length apb) = NUM_BASES" and total: "sum_list apb = count"
    using distribute_contract by blast
  from assms apb obtain suppression where
    sup: "build_suppression fs mp ap row = Inr suppression"
    and es: "es = [PDict [(''file_name'', Atom (SStr AIRCRAFT_FILE)),
                         (''agents_per_base'', PList (map (\<lambda>n. Atom (SInt n)) apb)),
                         (''suppression_tactic'', suppression)]]"
    by (cases "build_suppression fs mp ap row") (auto simp: group_entry_def)
  from apb len total sup es show ?thesis by blast
qed

text \<open>
  C9. With \<open>num_bases \<ge> 1\<close> and \<open>tot < 0\<close> the distributor returns \<open>num_bases - tot\<close>
  zeros: a list longer than \<open>num_bases\<close> whose sum is 0, not \<open>tot\<close>. For \<open>tot \<ge> 0\<close> its
  result has length \<open>num_bases\<close> and sums to \<open>tot\<close>. The assembler builds a group's entry
  only from a count above 0: a count of 0 or less gives no entry and no call, and an entry
  that is built carries the distribution of a positive count over \<open>NUM_BASES\<close> bases.
\<close>

theorem distribute_across_bases_negative_total:
  "(1 \<le> num_bases \<and> tot < 0 \<longrightarrow>
      (\<exists>counts. distribute_across_bases tot num_bases = Inr counts
         \<and> int (length counts) = num_bases - tot
         \<and> num_bases < int (length counts)
         \<and> (\<forall>c \<in> set counts. c = 0)
         \<and> sum_list counts = 0
         \<and> sum_list counts \<noteq> tot))
   \<and> (1 \<le> num_bases' \<and> 0 \<le> tot' \<longrightarrow>
      (\<exists>counts. distribute_across_bases tot' num_bases' = Inr counts
         \<and> int (length counts) = num_bases' \<and> sum_list counts = tot'))
   \<and> (count \<le> 0 \<longrightarrow> group_entry fs mp ap row count = Inr [])
   \<and> (group_entry fs mp ap row count' = Inr es \<and> es \<noteq> [] \<longrightarrow>
        0 < count'
        \<and> (\<exists>apb e. es = [e]
              \<and> distribute_across_bases count' NUM_BASES = Inr apb
              \<and> dict_get e ''agents_per_base'' = Some (PList (map (\<lambda>n. Atom (SInt n)) apb))
              \<and> int (length apb) = NUM_BASES \<and> sum_list apb = count'))"
proof (intro conjI impI)
  assume a: "1 \<le> num_bases \<and> tot < 0"
  then have lt: "tot < num_bases" by simp
  define counts where "counts = replicate (nat (num_bases - tot)) (0::int)"
  have eq: "distribute_across_bases tot num_bases = Inr counts"
    using a distribute_lt [OF lt] by (simp add: counts_def)
  have len: "int (length counts) = num_bases - tot" using a by (simp add: counts_def)
  have longer: "num_bases < int (length counts)" using a len by simp
  have zeros: "\<forall>c \<in> set counts. c = 0" by (simp add: counts_def)
  have s0: "sum_list counts = 0" by (simp add: counts_def sum_list_replicate)
  have ne: "sum_list counts \<noteq> tot" using a s0 by simp
  from eq len longer zeros s0 ne
  show "\<exists>counts. distribute_across_bases tot num_bases = Inr counts
         \<and> int (length counts) = num_bases - tot
         \<and> num_bases < int (length counts)
         \<and> (\<forall>c \<in> set counts. c = 0)
         \<and> sum_list counts = 0
         \<and> sum_list counts \<noteq> tot"
    by blast
next
  assume "1 \<le> num_bases' \<and> 0 \<le> tot'"
  then show "\<exists>counts. distribute_across_bases tot' num_bases' = Inr counts
         \<and> int (length counts) = num_bases' \<and> sum_list counts = tot'"
    using distribute_contract by blast
next
  assume "count \<le> 0"
  then show "group_entry fs mp ap row count = Inr []" by (rule group_entry_nonpositive)
next
  assume g: "group_entry fs mp ap row count' = Inr es \<and> es \<noteq> []"
  show pos: "0 < count'"
  proof (rule ccontr)
    assume "\<not> 0 < count'"
    then have "group_entry fs mp ap row count' = Inr []"
      by (simp add: group_entry_nonpositive)
    with g show False by auto
  qed
  from group_entry_positive [OF pos] g
  obtain apb suppression where
    "distribute_across_bases count' NUM_BASES = Inr apb"
    "int (length apb) = NUM_BASES" "sum_list apb = count'"
    "es = [PDict [(''file_name'', Atom (SStr AIRCRAFT_FILE)),
                  (''agents_per_base'', PList (map (\<lambda>n. Atom (SInt n)) apb)),
                  (''suppression_tactic'', suppression)]]"
    by blast
  then show "\<exists>apb e. es = [e]
              \<and> distribute_across_bases count' NUM_BASES = Inr apb
              \<and> dict_get e ''agents_per_base'' = Some (PList (map (\<lambda>n. Atom (SInt n)) apb))
              \<and> int (length apb) = NUM_BASES \<and> sum_list apb = count'"
    by (simp add: dict_get_def)
qed

theorem distribute_across_bases_negative_total_witness:
  "\<forall>fs. (1::int) \<le> 3 \<and> (-2::int) < 0
     \<and> distribute_across_bases (-2) 3 = Inr [0, 0, 0, 0, 0]
     \<and> (0::int) \<le> 5 \<and> distribute_across_bases 5 2 = Inr [3, 2]
     \<and> (0::int) \<le> 0 \<and> group_entry fs ''g1_'' ''g1a_'' Map.empty 0 = Inr []
     \<and> group_entry fs ''g1_'' ''g1a_'' Map.empty 5 =
          Inr [PDict [(''file_name'', Atom (SStr AIRCRAFT_FILE)),
                      (''agents_per_base'', PList [Atom (SInt 3), Atom (SInt 2)]),
                      (''suppression_tactic'', PDict [(''main'', PDict [])])]]
     \<and> (0::int) < 5"
proof
  fix fs
  have d1: "distribute_across_bases (-2) 3 = Inr [0, 0, 0, 0, 0]" by code_simp
  have d2: "distribute_across_bases 5 2 = Inr [3, 2]" by code_simp
  have g5: "group_entry fs ''g1_'' ''g1a_'' Map.empty 5 =
          Inr [PDict [(''file_name'', Atom (SStr AIRCRAFT_FILE)),
                      (''agents_per_base'', PList [Atom (SInt 3), Atom (SInt 2)]),
                      (''suppression_tactic'', PDict [(''main'', PDict [])])]]"
    by (simp add: group_entry_def NUM_BASES_def d2 builder_defs)
  from distribute_across_bases_negative_total
         [where num_bases = 3 and tot = "-2" and num_bases' = 2 and tot' = 5
            and count = 0 and count' = 5 and fs = fs and mp = "''g1_''" and ap = "''g1a_''"
            and row = Map.empty
            and es = "[PDict [(''file_name'', Atom (SStr AIRCRAFT_FILE)),
                      (''agents_per_base'', PList [Atom (SInt 3), Atom (SInt 2)]),
                      (''suppression_tactic'', PDict [(''main'', PDict [])])]]"]
  have "group_entry fs ''g1_'' ''g1a_'' Map.empty 0 = Inr [] \<and> (0::int) < 5"
    using g5 by simp
  with d1 d2 g5
  show "(1::int) \<le> 3 \<and> (-2::int) < 0
     \<and> distribute_across_bases (-2) 3 = Inr [0, 0, 0, 0, 0]
     \<and> (0::int) \<le> 5 \<and> distribute_across_bases 5 2 = Inr [3, 2]
     \<and> (0::int) \<le> 0 \<and> group_entry fs ''g1_'' ''g1a_'' Map.empty 0 = Inr []
     \<and> group_entry fs ''g1_'' ''g1a_'' Map.empty 5 =
          Inr [PDict [(''file_name'', Atom (SStr AIRCRAFT_FILE)),
                      (''agents_per_base'', PList [Atom (SInt 3), Atom (SInt 2)]),
                      (''suppression_tactic'', PDict [(''main'', PDict [])])]]
     \<and> (0::int) < 5"
    by simp
qed








end
